theory Spec2Isabelle
  imports Complex_Main "HOL-Library.Word" "HOL-Library.Product_Lexorder"
begin

unbundle bit_operations_syntax

chapter \<open>The map rendering pipeline of pip-boy-tui\<close>

text \<open>
  A shallow embedding of the braille pixel buffer, the canvas, the tile source, the map
  renderer and the map utilities of \<^verbatim>\<open>pip-boy-tui/src/map\<close>, followed by the properties
  proved about them.  Each function keeps the name it has in the TypeScript source.
  Mutation is explicit state passing: a method takes the object and returns the new one.
  A thrown error is a value (\<open>Inl\<close> of a sum, or \<open>None\<close>).  Libraries outside the
  repository (zlib, the vector-tile reader, fetch, the SQLite driver, earcut) are
  parameters of the functions that call them.
\<close>

section \<open>Strings\<close>

text \<open>
  A JavaScript string is a sequence of UTF-16 code units; \<open>length\<close> counts code units,
  which is what \<^verbatim>\<open>char.length\<close> and \<^verbatim>\<open>text.charAt(i)\<close> see.  A code unit is kept as
  its number.  ASCII text of the source is written as an Isabelle string and converted
  with \<open>asc\<close>.
\<close>

type_synonym jsstring = "nat list"

definition asc :: "string \<Rightarrow> jsstring" where
  "asc s = map of_char s"

text \<open>Number-to-string conversion of a non-negative integer (template literals).\<close>

fun decimal :: "nat \<Rightarrow> jsstring" where
  "decimal n = (if n < 10 then [48 + n]
                else decimal (n div 10) @ [48 + n mod 10])"

declare decimal.simps [simp del]

section \<open>BrailleBuffer\<close>

definition BRAILLE_OFFSET :: nat where
  "BRAILLE_OFFSET = 0x2800"

definition BRAILLE_MAP :: "8 word list list" where
  "BRAILLE_MAP = [[0x01, 0x08], [0x02, 0x10], [0x04, 0x20], [0x40, 0x80]]"

text \<open>
  The four typed arrays hold one entry per character cell.  \<open>Uint8Array\<close> entries are
  \<open>8 word\<close>; the override glyph is \<open>None\<close> for \<^verbatim>\<open>null\<close>.  Pixel sizes are non-negative
  integers, pixel coordinates are integers of either sign.
\<close>

record BrailleBuffer =
  width :: nat
  height :: nat
  charWidth :: nat
  charHeight :: nat
  pixelBuffer :: "8 word list"
  foregroundBuffer :: "8 word list"
  backgroundBuffer :: "8 word list"
  charBuffer :: "jsstring option list"
  globalBackground :: nat

definition newBrailleBuffer :: "nat \<Rightarrow> nat \<Rightarrow> BrailleBuffer" where
  "newBrailleBuffer w h =
     (let width' = w - (w mod 2);
          height' = h - (h mod 4);
          charWidth' = drop_bit 1 width';
          charHeight' = drop_bit 2 height';
          cellCount = charWidth' * charHeight'
      in \<lparr> width = width', height = height',
           charWidth = charWidth', charHeight = charHeight',
           pixelBuffer = replicate cellCount 0,
           foregroundBuffer = replicate cellCount 0,
           backgroundBuffer = replicate cellCount 0,
           charBuffer = replicate cellCount None,
           globalBackground = 0 \<rparr>)"

definition clear :: "BrailleBuffer \<Rightarrow> BrailleBuffer" where
  "clear b = b\<lparr> pixelBuffer := map (\<lambda>_. 0) (pixelBuffer b),
               foregroundBuffer := map (\<lambda>_. 0) (foregroundBuffer b),
               backgroundBuffer := map (\<lambda>_. 0) (backgroundBuffer b),
               charBuffer := map (\<lambda>_. None) (charBuffer b) \<rparr>"

text \<open>\<^verbatim>\<open>(x >> 1) + this.charWidth * (y >> 2)\<close>; only called with \<open>0 \<le> x\<close>, \<open>0 \<le> y\<close>.\<close>

definition cellIndex :: "BrailleBuffer \<Rightarrow> int \<Rightarrow> int \<Rightarrow> nat" where
  "cellIndex b x y = nat (drop_bit 1 x) + charWidth b * nat (drop_bit 2 y)"

text \<open>Array read \<^verbatim>\<open>xs[i]\<close>: \<^verbatim>\<open>undefined\<close> out of range.\<close>

definition arrayGet :: "'a list \<Rightarrow> nat \<Rightarrow> 'a option" where
  "arrayGet xs i = (if i < length xs then Some (xs ! i) else None)"

definition outOfBounds :: "BrailleBuffer \<Rightarrow> int \<Rightarrow> int \<Rightarrow> bool" where
  "outOfBounds b x y \<longleftrightarrow> x < 0 \<or> x \<ge> int (width b) \<or> y < 0 \<or> y \<ge> int (height b)"

text \<open>
  \<^verbatim>\<open>BRAILLE_MAP[y & 3]\<close> and \<^verbatim>\<open>row[x & 1]\<close> with their \<^verbatim>\<open>undefined\<close> checks.  \<open>y & 3\<close> is
  \<open>take_bit 2 y\<close>, \<open>x & 1\<close> is \<open>take_bit 1 x\<close>.
\<close>

definition dotMask :: "int \<Rightarrow> int \<Rightarrow> 8 word option" where
  "dotMask x y =
     (case arrayGet BRAILLE_MAP (nat (take_bit 2 y)) of
        None \<Rightarrow> None
      | Some row \<Rightarrow> arrayGet row (nat (take_bit 1 x)))"

text \<open>A colour argument is a number; storing it into a \<open>Uint8Array\<close> keeps it modulo 256.\<close>

definition setPixel :: "int \<Rightarrow> int \<Rightarrow> int \<Rightarrow> BrailleBuffer \<Rightarrow> BrailleBuffer" where
  "setPixel x y color b =
     (if outOfBounds b x y then b
      else let idx = cellIndex b x y in
        case dotMask x y of
          None \<Rightarrow> b
        | Some dot \<Rightarrow>
            b\<lparr> pixelBuffer := (pixelBuffer b)[idx := (pixelBuffer b ! idx) OR dot],
               foregroundBuffer := (foregroundBuffer b)[idx := word_of_int color] \<rparr>)"

definition unsetPixel :: "int \<Rightarrow> int \<Rightarrow> BrailleBuffer \<Rightarrow> BrailleBuffer" where
  "unsetPixel x y b =
     (if outOfBounds b x y then b
      else let idx = cellIndex b x y in
        case dotMask x y of
          None \<Rightarrow> b
        | Some dot \<Rightarrow>
            b\<lparr> pixelBuffer := (pixelBuffer b)[idx := (pixelBuffer b ! idx) AND NOT dot] \<rparr>)"

definition setBackground :: "int \<Rightarrow> int \<Rightarrow> int \<Rightarrow> BrailleBuffer \<Rightarrow> BrailleBuffer" where
  "setBackground x y color b =
     (if outOfBounds b x y then b
      else let idx = cellIndex b x y in
        b\<lparr> backgroundBuffer := (backgroundBuffer b)[idx := word_of_int color] \<rparr>)"

definition setChar :: "jsstring \<Rightarrow> int \<Rightarrow> int \<Rightarrow> int \<Rightarrow> BrailleBuffer \<Rightarrow> BrailleBuffer" where
  "setChar char x y color b =
     (if outOfBounds b x y then b
      else let idx = cellIndex b x y in
        b\<lparr> charBuffer := (charBuffer b)[idx := Some char],
           foregroundBuffer := (foregroundBuffer b)[idx := word_of_int color] \<rparr>)"

text \<open>\<^verbatim>\<open>text.charAt(i)\<close> for \<open>i < text.length\<close> is the one-unit string at \<open>i\<close>.\<close>

definition writeText :: "jsstring \<Rightarrow> int \<Rightarrow> int \<Rightarrow> int \<Rightarrow> bool \<Rightarrow> BrailleBuffer \<Rightarrow> BrailleBuffer" where
  "writeText text x y color center b =
     (let x' = (if center then x - (int (length text) + 1) else x)
      in fold (\<lambda>i. setChar [text ! i] (x' + int i * 2) y color) [0..<length text] b)"

text \<open>
  The shape every constructed buffer has and every operation keeps: the pixel size is
  the cell size times (2, 4) and each array has one entry per cell.
\<close>

definition wellFormed :: "BrailleBuffer \<Rightarrow> bool" where
  "wellFormed b \<longleftrightarrow>
     width b = 2 * charWidth b \<and> height b = 4 * charHeight b \<and>
     length (pixelBuffer b) = charWidth b * charHeight b \<and>
     length (foregroundBuffer b) = charWidth b * charHeight b \<and>
     length (backgroundBuffer b) = charWidth b * charHeight b \<and>
     length (charBuffer b) = charWidth b * charHeight b"

text \<open>A small buffer with two dots set, used to evaluate the operations.\<close>

definition demoBuffer :: BrailleBuffer where
  "demoBuffer = setPixel 3 2 7 (setPixel 2 1 5 (newBrailleBuffer 4 8))"

section \<open>Colour conversion: terminal index to hex\<close>

text \<open>\<^verbatim>\<open>n.toString(16)\<close> of a non-negative integer, and \<^verbatim>\<open>padStart(2, "0")\<close>.\<close>

definition hexDigit :: "nat \<Rightarrow> nat" where
  "hexDigit d = (if d < 10 then 48 + d else 87 + d)"

fun toString16 :: "nat \<Rightarrow> jsstring" where
  "toString16 n = (if n < 16 then [hexDigit n]
                   else toString16 (n div 16) @ [hexDigit (n mod 16)])"

declare toString16.simps [simp del]

definition padStart2 :: "jsstring \<Rightarrow> jsstring" where
  "padStart2 s = replicate (2 - length s) 48 @ s"

definition toHex :: "int \<Rightarrow> jsstring" where
  "toHex v = padStart2 (toString16 (nat (if v = 0 then 0 else 55 + v * 40)))"

definition basic :: "jsstring list" where
  "basic = map asc
     [''#000000'', ''#800000'', ''#008000'', ''#808000'',
      ''#000080'', ''#800080'', ''#008080'', ''#c0c0c0'',
      ''#808080'', ''#ff0000'', ''#00ff00'', ''#ffff00'',
      ''#0000ff'', ''#ff00ff'', ''#00ffff'', ''#ffffff'']"

definition xterm2hex :: "int \<Rightarrow> jsstring" where
  "xterm2hex index =
     (if index < 0 \<or> index > 255 then asc ''#000000''
      else if index < 16 then basic ! nat index
      else if index < 232 then
        (let i = index - 16;
             r = i div 36;
             g = (i mod 36) div 6;
             b = i mod 6
         in asc ''#'' @ toHex r @ toHex g @ toHex b)
      else
        (let grey = 8 + (index - 232) * 10;
             h = padStart2 (toString16 (nat grey))
         in asc ''#'' @ h @ h @ h))"

section \<open>BrailleBuffer: the three export modes\<close>

definition ESC :: nat where
  "ESC = 0x1B"

definition termReset :: jsstring where
  "termReset = ESC # asc ''[39;49m''"

text \<open>
  Reads of the typed arrays inside the export loops.  \<^verbatim>\<open>this.foregroundBuffer[idx]!\<close> out
  of range is \<^verbatim>\<open>undefined\<close>, which the truthiness tests of \<open>_termColor\<close> treat like 0.
\<close>

definition byteAt :: "8 word list \<Rightarrow> nat \<Rightarrow> nat" where
  "byteAt xs idx = (case arrayGet xs idx of None \<Rightarrow> 0 | Some w \<Rightarrow> unat w)"

text \<open>\<^verbatim>\<open>this.charBuffer[idx] ?? null\<close>.\<close>

definition glyphAt :: "BrailleBuffer \<Rightarrow> nat \<Rightarrow> jsstring option" where
  "glyphAt b idx = (case arrayGet (charBuffer b) idx of None \<Rightarrow> None | Some g \<Rightarrow> g)"

text \<open>\<^verbatim>\<open>String.fromCharCode(n)\<close>: the code unit \<open>n mod 2^16\<close>; of \<^verbatim>\<open>NaN\<close>, the unit 0.\<close>

definition fromCharCode :: "nat option \<Rightarrow> jsstring" where
  "fromCharCode n = (case n of None \<Rightarrow> [0] | Some v \<Rightarrow> [v mod 65536])"

text \<open>
  \<^verbatim>\<open>BRAILLE_OFFSET + this.pixelBuffer[idx]!\<close> (in \<open>toLines\<close>): \<^verbatim>\<open>NaN\<close> when the read is out of
  range.  \<^verbatim>\<open>BRAILLE_OFFSET + (this.pixelBuffer[idx] ?? 0)\<close> (in the other two modes).
\<close>

definition brailleBang :: "BrailleBuffer \<Rightarrow> nat \<Rightarrow> jsstring" where
  "brailleBang b idx =
     fromCharCode (case arrayGet (pixelBuffer b) idx of
                     None \<Rightarrow> None | Some w \<Rightarrow> Some (BRAILLE_OFFSET + unat w))"

definition brailleOrZero :: "BrailleBuffer \<Rightarrow> nat \<Rightarrow> jsstring" where
  "brailleOrZero b idx =
     fromCharCode (Some (BRAILLE_OFFSET +
        (case arrayGet (pixelBuffer b) idx of None \<Rightarrow> 0 | Some w \<Rightarrow> unat w)))"

definition termColor :: "BrailleBuffer \<Rightarrow> nat \<Rightarrow> nat \<Rightarrow> jsstring" where
  "termColor b fg bg =
     (let effectiveBg = (if bg \<noteq> 0 then bg else globalBackground b) in
      if fg \<noteq> 0 \<and> effectiveBg \<noteq> 0 then
        ESC # asc ''[38;5;'' @ decimal fg @ asc '';48;5;'' @ decimal effectiveBg @ asc ''m''
      else if fg \<noteq> 0 then
        ESC # asc ''[49;38;5;'' @ decimal fg @ asc ''m''
      else if effectiveBg \<noteq> 0 then
        ESC # asc ''[39;48;5;'' @ decimal effectiveBg @ asc ''m''
      else ESC # asc ''[39;49m'')"

text \<open>\<^verbatim>\<open>const w = char.length > 1 ? char.length - 1 : 0\<close>.\<close>

definition extraColumns :: "jsstring \<Rightarrow> nat" where
  "extraColumns char = (if length char > 1 then length char - 1 else 0)"

text \<open>
  The inner loop of \<open>toLines\<close> over the columns \<open>cx\<close> of row \<open>cy\<close>, with its three loop
  variables: \<open>currentColor\<close> (which lives across rows), \<open>skip\<close> and \<open>parts\<close>.
\<close>

fun toLinesCells ::
  "BrailleBuffer \<Rightarrow> nat \<Rightarrow> nat list \<Rightarrow> jsstring option \<Rightarrow> nat \<Rightarrow> jsstring list
     \<Rightarrow> jsstring option \<times> jsstring list" where
  "toLinesCells b cy [] currentColor skip parts = (currentColor, parts)"
| "toLinesCells b cy (cx # cxs) currentColor skip parts =
     (let idx = cy * charWidth b + cx;
          colorCode = termColor b (byteAt (foregroundBuffer b) idx)
                                  (byteAt (backgroundBuffer b) idx);
          parts1 = (if currentColor \<noteq> Some colorCode then parts @ [colorCode] else parts)
      in case glyphAt b idx of
           Some char \<Rightarrow>
             if skip > 0 then toLinesCells b cy cxs (Some colorCode) (skip - 1) parts1
             else toLinesCells b cy cxs (Some colorCode) (skip + extraColumns char)
                    (parts1 @ [char])
         | None \<Rightarrow>
             if skip > 0 then toLinesCells b cy cxs (Some colorCode) (skip - 1) parts1
             else toLinesCells b cy cxs (Some colorCode) skip
                    (parts1 @ [brailleBang b idx]))"

fun toLinesRows ::
  "BrailleBuffer \<Rightarrow> nat list \<Rightarrow> jsstring option \<Rightarrow> jsstring list \<Rightarrow> jsstring list" where
  "toLinesRows b [] currentColor lines = lines"
| "toLinesRows b (cy # cys) currentColor lines =
     (case toLinesCells b cy [0..<charWidth b] currentColor 0 [] of
        (currentColor', parts) \<Rightarrow>
          toLinesRows b cys currentColor' (lines @ [concat (parts @ [termReset])]))"

definition toLines :: "BrailleBuffer \<Rightarrow> jsstring list" where
  "toLines b = toLinesRows b [0..<charHeight b] None []"

fun toPlainCells ::
  "BrailleBuffer \<Rightarrow> nat \<Rightarrow> nat list \<Rightarrow> nat \<Rightarrow> jsstring list \<Rightarrow> jsstring list" where
  "toPlainCells b cy [] skip parts = parts"
| "toPlainCells b cy (cx # cxs) skip parts =
     (let idx = cy * charWidth b + cx
      in case glyphAt b idx of
           Some char \<Rightarrow>
             if skip > 0 then toPlainCells b cy cxs (skip - 1) parts
             else toPlainCells b cy cxs (skip + extraColumns char) (parts @ [char])
         | None \<Rightarrow>
             if skip > 0 then toPlainCells b cy cxs (skip - 1) parts
             else toPlainCells b cy cxs skip (parts @ [brailleOrZero b idx]))"

definition toPlainLines :: "BrailleBuffer \<Rightarrow> jsstring list" where
  "toPlainLines b =
     fold (\<lambda>cy lines. lines @ [concat (toPlainCells b cy [0..<charWidth b] 0 [])])
       [0..<charHeight b] []"

record ColoredCell =
  char :: jsstring
  fgHex :: jsstring

fun toColoredCellsRow ::
  "BrailleBuffer \<Rightarrow> nat \<Rightarrow> nat list \<Rightarrow> nat \<Rightarrow> ColoredCell list \<Rightarrow> ColoredCell list" where
  "toColoredCellsRow b cy [] skip row = row"
| "toColoredCellsRow b cy (cx # cxs) skip row =
     (let idx = cy * charWidth b + cx;
          fgColor = byteAt (foregroundBuffer b) idx;
          fgHex' = (if fgColor \<noteq> 0 then xterm2hex (int fgColor) else asc ''#000000'')
      in case glyphAt b idx of
           Some char' \<Rightarrow>
             if skip > 0 then toColoredCellsRow b cy cxs (skip - 1) row
             else toColoredCellsRow b cy cxs (skip + extraColumns char')
                    (row @ [\<lparr>char = char', fgHex = fgHex'\<rparr>])
         | None \<Rightarrow>
             if skip > 0 then toColoredCellsRow b cy cxs (skip - 1) row
             else toColoredCellsRow b cy cxs skip
                    (row @ [\<lparr>char = brailleOrZero b idx, fgHex = fgHex'\<rparr>]))"

definition toColoredCells :: "BrailleBuffer \<Rightarrow> ColoredCell list list" where
  "toColoredCells b =
     fold (\<lambda>cy rows. rows @ [toColoredCellsRow b cy [0..<charWidth b] 0 []])
       [0..<charHeight b] []"

subsection \<open>The comparison of the claim: removing escape sequences, joining cells\<close>

text \<open>
  Removal of ANSI colour (SGR) sequences from a string: \<open>ESC [\<close>, parameter characters
  (digits and \<open>;\<close>), final \<open>m\<close>.  An \<open>ESC\<close> that does not start such a sequence stays.
\<close>

definition isParam :: "nat \<Rightarrow> bool" where
  "isParam c \<longleftrightarrow> (48 \<le> c \<and> c \<le> 57) \<or> c = 59"

fun sgrTail :: "jsstring \<Rightarrow> jsstring option" where
  "sgrTail [] = None"
| "sgrTail (c # cs) =
     (if c = 109 then Some cs else if isParam c then sgrTail cs else None)"

function stripAnsi :: "jsstring \<Rightarrow> jsstring" where
  "stripAnsi [] = []"
| "stripAnsi [c] = [c]"
| "stripAnsi (c # d # ds) =
     (if c = ESC \<and> d = 91 then
        (case sgrTail ds of
           Some rest \<Rightarrow> stripAnsi rest
         | None \<Rightarrow> c # stripAnsi (d # ds))
      else c # stripAnsi (d # ds))"
  by pat_completeness auto
termination
proof (relation "measure length")
  show "wf (measure length)" by simp
next
  fix c d :: nat and ds rest :: jsstring
  assume "sgrTail ds = Some rest"
  moreover have "sgrTail xs = Some r \<Longrightarrow> length r < length xs" for xs r
    by (induction xs) (auto split: if_splits)
  ultimately show "(rest, c # d # ds) \<in> measure length" by fastforce
qed simp_all

text \<open>The calls of the buffer's drawing interface, to speak about reachable states.\<close>

datatype BufferCall =
    SetPixel int int int
  | UnsetPixel int int
  | SetBackground int int int
  | SetChar jsstring int int int
  | WriteText jsstring int int int bool

fun call :: "BufferCall \<Rightarrow> BrailleBuffer \<Rightarrow> BrailleBuffer" where
  "call (SetPixel x y color) b = setPixel x y color b"
| "call (UnsetPixel x y) b = unsetPixel x y b"
| "call (SetBackground x y color) b = setBackground x y color b"
| "call (SetChar g x y color) b = setChar g x y color b"
| "call (WriteText t x y color center) b = writeText t x y color center b"

definition calls :: "BufferCall list \<Rightarrow> BrailleBuffer \<Rightarrow> BrailleBuffer" where
  "calls cs b = fold call cs b"

text \<open>The string argument of a call (empty for the pixel calls).\<close>

fun callText :: "BufferCall \<Rightarrow> jsstring" where
  "callText (SetChar g x y color) = g"
| "callText (WriteText t x y color center) = t"
| "callText _ = []"

text \<open>
  The pieces that \<open>toLines\<close> joins are of two kinds: colour codes as \<open>_termColor\<close> builds
  them, and glyph strings.  A glyph string free of \<open>ESC\<close> cannot be mistaken for a code.
\<close>

definition isCode :: "jsstring \<Rightarrow> bool" where
  "isCode p \<longleftrightarrow> (\<exists>ps. p = ESC # 91 # ps @ [109] \<and> (\<forall>c\<in>set ps. isParam c))"

definition escFree :: "jsstring \<Rightarrow> bool" where
  "escFree p \<longleftrightarrow> ESC \<notin> set p"

definition glyphsClean :: "BrailleBuffer \<Rightarrow> bool" where
  "glyphsClean b \<longleftrightarrow> (\<forall>g. Some g \<in> set (charBuffer b) \<longrightarrow> escFree g)"

text \<open>A short drawing session on an 8 by 8 pixel buffer.\<close>

definition demoCalls :: "BufferCall list" where
  "demoCalls = [SetPixel 2 1 5, SetChar (asc ''abc'') 0 4 200,
                WriteText (asc ''hi'') 4 4 3 False, SetBackground 6 0 9, UnsetPixel 2 1]"

section \<open>Tile parser and tile source\<close>

type_synonym bytes = "8 word list"

text \<open>What the code can throw in this part of the program.\<close>

datatype error =
    UnsupportedTileSource
  | OpenFailed
  | DatabaseNotOpen
  | ZlibError
  | ProtobufError

text \<open>
  The world outside the repository, as the tile code uses it.  \<open>'t\<close> is the type of a
  \<open>ParsedTile\<close>.
  \<^item> \<open>gunzipSync\<close>: zlib; throws on a corrupt stream.
  \<^item> \<open>decodeTile\<close>: lines 58 to 140 of \<open>parseTile\<close>, which read the protobuf through
    \<^verbatim>\<open>@mapbox/vector-tile\<close> and \<^verbatim>\<open>pbf\<close> (both throw on malformed input), match the styles
    and load the R-tree; its arguments are the bytes and the language.
  \<^item> \<open>openDatabase\<close>: \<^verbatim>\<open>new Database(path, {readonly: true})\<close>; \<open>None\<close> when it throws.  An
    open database is its \<open>tiles\<close> table, read by (zoom_level, tile_column, tile_row).
  \<^item> \<open>httpGet\<close>: \<^verbatim>\<open>fetch(url)\<close> followed by \<^verbatim>\<open>arrayBuffer()\<close>; \<open>None\<close> when the fetch
    throws or the response is not ok.
\<close>

type_synonym database = "int \<times> int \<times> int \<Rightarrow> bytes option"

record 't World =
  gunzipSync :: "bytes \<Rightarrow> error + bytes"
  decodeTile :: "bytes \<Rightarrow> jsstring \<Rightarrow> error + 't"
  openDatabase :: "jsstring \<Rightarrow> database option"
  httpGet :: "jsstring \<Rightarrow> bytes option"

definition isGzipped :: "bytes \<Rightarrow> bool" where
  "isGzipped buffer \<longleftrightarrow> length buffer \<ge> 2 \<and> buffer ! 0 = 0x1f \<and> buffer ! 1 = 0x8b"

definition parseTile :: "'t World \<Rightarrow> bytes \<Rightarrow> jsstring \<Rightarrow> error + 't" where
  "parseTile world buffer lang =
     (case (if isGzipped buffer then gunzipSync world buffer else Inr buffer) of
        Inl e \<Rightarrow> Inl e
      | Inr data \<Rightarrow> decodeTile world data lang)"

datatype SourceMode = Mbtiles | Http

record TileSourceOptions =
  opt_source :: jsstring
  opt_cacheSize :: "nat option"
  opt_language :: "jsstring option"

text \<open>
  \<open>cache\<close> is the \<^verbatim>\<open>Map<string, ParsedTile>\<close>, \<open>cacheOrder\<close> the array of keys in insertion
  order.  The cache size is the \<^verbatim>\<open>Max tiles to keep in cache\<close> of the options, taken here as a
  count, so a natural number.  The constructor checks nothing: it would also store a
  fraction, a negative number, with which the loop of \<open>_cacheSet\<close> never ends, or \<^verbatim>\<open>NaN\<close>, with
  which it never evicts.  Those are outside this model.
\<close>

record 't TileSource =
  mode :: SourceMode
  source :: jsstring
  db :: "database option"
  cache :: "jsstring \<Rightarrow> 't option"
  cacheOrder :: "jsstring list"
  cacheSize :: nat
  language :: jsstring

definition startsWith :: "jsstring \<Rightarrow> jsstring \<Rightarrow> bool" where
  "startsWith s p \<longleftrightarrow> take (length p) s = p"

definition endsWith :: "jsstring \<Rightarrow> jsstring \<Rightarrow> bool" where
  "endsWith s p \<longleftrightarrow> length p \<le> length s \<and> drop (length s - length p) s = p"

definition newTileSource :: "'t World \<Rightarrow> TileSourceOptions \<Rightarrow> error + 't TileSource" where
  "newTileSource world options =
     (let ts = \<lparr> mode = Http, source = opt_source options, db = None,
                  cache = Map.empty, cacheOrder = [],
                  cacheSize = (case opt_cacheSize options of None \<Rightarrow> 32 | Some n \<Rightarrow> n),
                  language = (case opt_language options of None \<Rightarrow> asc ''en'' | Some l \<Rightarrow> l) \<rparr>
      in if startsWith (opt_source options) (asc ''http'') then Inr (ts\<lparr>mode := Http\<rparr>)
         else if endsWith (opt_source options) (asc ''.mbtiles'') then
           (case openDatabase world (opt_source options) of
              None \<Rightarrow> Inl OpenFailed
            | Some d \<Rightarrow> Inr (ts\<lparr>mode := Mbtiles, db := Some d\<rparr>))
         else Inl UnsupportedTileSource)"

text \<open>Number-to-string conversion of an integer, as a template literal does it.\<close>

definition numberToString :: "int \<Rightarrow> jsstring" where
  "numberToString i = (if i < 0 then 45 # decimal (nat (- i)) else decimal (nat i))"

definition tileKey :: "int \<Rightarrow> int \<Rightarrow> int \<Rightarrow> jsstring" where
  "tileKey z x y = numberToString z @ asc ''-'' @ numberToString x @ asc ''-'' @ numberToString y"

text \<open>\<^verbatim>\<open>1 << z\<close>: a 32-bit shift, whose count is taken modulo 32.\<close>

definition shiftLeftOne :: "int \<Rightarrow> int" where
  "shiftLeftOne z = sint (push_bit (nat (z mod 32)) (1 :: 32 word))"

definition getMBTile :: "'t TileSource \<Rightarrow> int \<Rightarrow> int \<Rightarrow> int \<Rightarrow> error + bytes" where
  "getMBTile ts z x y =
     (case db ts of
        None \<Rightarrow> Inl DatabaseNotOpen
      | Some d \<Rightarrow>
          (let tmsY = shiftLeftOne z - 1 - y
           in case d (z, x, tmsY) of
                None \<Rightarrow> Inr []
              | Some tile_data \<Rightarrow> Inr tile_data))"

definition getHTTP :: "'t World \<Rightarrow> 't TileSource \<Rightarrow> int \<Rightarrow> int \<Rightarrow> int \<Rightarrow> bytes" where
  "getHTTP world ts z x y =
     (let url = source ts @ numberToString z @ asc ''/'' @ numberToString x @ asc ''/''
                  @ numberToString y @ asc ''.pbf''
      in case httpGet world url of
           None \<Rightarrow> []
         | Some body \<Rightarrow> body)"

text \<open>
  The eviction loop of \<open>_cacheSet\<close>.  \<^verbatim>\<open>cacheOrder.shift()\<close> of an empty array is
  \<^verbatim>\<open>undefined\<close> and leaves it empty; the empty string is falsy, so \<^verbatim>\<open>if (evict)\<close> skips it.
\<close>

function evictLoop :: "'t TileSource \<Rightarrow> 't TileSource" where
  "evictLoop ts =
     (if length (cacheOrder ts) > cacheSize ts then
        (case cacheOrder ts of
           [] \<Rightarrow> ts
         | evict # rest \<Rightarrow>
             evictLoop (ts\<lparr> cacheOrder := rest,
                             cache := (if evict \<noteq> [] then (cache ts)(evict := None)
                                       else cache ts) \<rparr>))
      else ts)"
  by pat_completeness auto
termination
  by (relation "measure (\<lambda>ts. length (cacheOrder ts))") auto

declare evictLoop.simps [simp del]

definition cacheSet :: "jsstring \<Rightarrow> 't \<Rightarrow> 't TileSource \<Rightarrow> 't TileSource" where
  "cacheSet key tile ts =
     evictLoop (ts\<lparr> cache := (cache ts)(key \<mapsto> tile), cacheOrder := cacheOrder ts @ [key] \<rparr>)"

text \<open>The \<^verbatim>\<open>switch (this.mode)\<close> of \<open>getTile\<close>.\<close>

definition fetchBuffer :: "'t World \<Rightarrow> 't TileSource \<Rightarrow> int \<Rightarrow> int \<Rightarrow> int \<Rightarrow> error + bytes" where
  "fetchBuffer world ts z x y =
     (case mode ts of
        Mbtiles \<Rightarrow> getMBTile ts z x y
      | Http \<Rightarrow> Inr (getHTTP world ts z x y))"

text \<open>
  \<open>getTile\<close> is asynchronous.  Its body runs without interruption up to the first
  \<^verbatim>\<open>await\<close> it executes, and the only one is \<^verbatim>\<open>await this._getHTTP(z, x, y)\<close>.  A call
  therefore runs in two steps.  \<open>getTileEnter\<close> is the part up to that \<^verbatim>\<open>await\<close>: the cache
  lookup, and in \<open>mbtiles\<close> mode, which awaits nothing, the whole call.  \<open>getTileResume\<close>
  is the part after the fetch: parsing and \<open>_cacheSet\<close>.  Other calls on the tile source
  can run between the two steps, and only there.
\<close>

datatype 't GetTileStep = Settled "error + 't" | AwaitingFetch

definition getTileEnter ::
  "'t World \<Rightarrow> 't TileSource \<Rightarrow> int \<Rightarrow> int \<Rightarrow> int \<Rightarrow> 't GetTileStep \<times> 't TileSource" where
  "getTileEnter world ts z x y =
     (let key = tileKey z x y in
      case cache ts key of
        Some cached \<Rightarrow> (Settled (Inr cached), ts)
      | None \<Rightarrow>
          (case mode ts of
             Mbtiles \<Rightarrow>
               (case getMBTile ts z x y of
                  Inl e \<Rightarrow> (Settled (Inl e), ts)
                | Inr buffer \<Rightarrow>
                    (case parseTile world buffer (language ts) of
                       Inl e \<Rightarrow> (Settled (Inl e), ts)
                     | Inr parsed \<Rightarrow> (Settled (Inr parsed), cacheSet key parsed ts)))
           | Http \<Rightarrow> (AwaitingFetch, ts)))"

definition getTileResume ::
  "'t World \<Rightarrow> 't TileSource \<Rightarrow> int \<Rightarrow> int \<Rightarrow> int \<Rightarrow> (error + 't) \<times> 't TileSource" where
  "getTileResume world ts z x y =
     (let key = tileKey z x y;
          buffer = getHTTP world ts z x y
      in case parseTile world buffer (language ts) of
           Inl e \<Rightarrow> (Inl e, ts)
         | Inr parsed \<Rightarrow> (Inr parsed, cacheSet key parsed ts))"

text \<open>
  A call that no other call overlaps runs its two steps back to back.  That is \<open>getTile\<close>
  below: its result (\<open>Inl\<close>: the promise rejects with that error) and the tile source
  after the call.
\<close>

definition getTile ::
  "'t World \<Rightarrow> 't TileSource \<Rightarrow> int \<Rightarrow> int \<Rightarrow> int \<Rightarrow> (error + 't) \<times> 't TileSource" where
  "getTile world ts z x y =
     (let key = tileKey z x y in
      case cache ts key of
        Some cached \<Rightarrow> (Inr cached, ts)
      | None \<Rightarrow>
          (case fetchBuffer world ts z x y of
             Inl e \<Rightarrow> (Inl e, ts)
           | Inr buffer \<Rightarrow>
               (case parseTile world buffer (language ts) of
                  Inl e \<Rightarrow> (Inl e, ts)
                | Inr parsed \<Rightarrow> (Inr parsed, cacheSet key parsed ts))))"

text \<open>
  Calls that overlap, as the \<^verbatim>\<open>Promise.all\<close> of \<open>draw\<close> issues them.  The state is the tile
  source and the calls whose fetch is under way, oldest first.  \<open>Call z x y\<close> starts a
  call; \<open>FetchDone i\<close> is the completion of the fetch of the \<open>i\<close>-th call under way, in
  whatever order the network answers.  Every run of the tile source is a list of such
  events.
\<close>

datatype TileEvent = Call int int int | FetchDone nat

fun tileStep ::
  "'t World \<Rightarrow> TileEvent \<Rightarrow> 't TileSource \<times> (int \<times> int \<times> int) list
     \<Rightarrow> 't TileSource \<times> (int \<times> int \<times> int) list" where
  "tileStep world (Call z x y) (ts, pending) =
     (case getTileEnter world ts z x y of
        (Settled r, ts') \<Rightarrow> (ts', pending)
      | (AwaitingFetch, ts') \<Rightarrow> (ts', pending @ [(z, x, y)]))"
| "tileStep world (FetchDone i) (ts, pending) =
     (if i < length pending then
        (case pending ! i of
           (z, x, y) \<Rightarrow>
             (snd (getTileResume world ts z x y), take i pending @ drop (Suc i) pending))
      else (ts, pending))"

definition runEvents ::
  "'t World \<Rightarrow> TileEvent list \<Rightarrow> 't TileSource \<times> (int \<times> int \<times> int) list
     \<Rightarrow> 't TileSource \<times> (int \<times> int \<times> int) list" where
  "runEvents world events st = fold (tileStep world) events st"

text \<open>
  The bound the cache keeps: every cached key is in the order queue, which is not
  longer than the cache size and holds no empty key.  When calls do not overlap the
  queue moreover lists exactly the cached keys, each once.
\<close>

definition cacheBounded :: "'t TileSource \<Rightarrow> bool" where
  "cacheBounded ts \<longleftrightarrow>
     dom (cache ts) \<subseteq> set (cacheOrder ts) \<and> [] \<notin> set (cacheOrder ts) \<and>
     length (cacheOrder ts) \<le> cacheSize ts"

definition cacheExact :: "'t TileSource \<Rightarrow> bool" where
  "cacheExact ts \<longleftrightarrow>
     cacheBounded ts \<and> distinct (cacheOrder ts) \<and> set (cacheOrder ts) = dom (cache ts)"

text \<open>
  A small world to run the tile source in: the server answers every URL with the URL's
  own code units as the body, a parsed tile is the bytes it was decoded from, and zlib
  rejects a stream shorter than the 18 bytes of a gzip header and trailer (what it
  returns on longer input plays no role below).
\<close>

definition demoWorld :: "bytes World" where
  "demoWorld = \<lparr> gunzipSync = (\<lambda>b. if length b < 18 then Inl ZlibError else Inr []),
                  decodeTile = (\<lambda>b l. Inr b),
                  openDatabase = (\<lambda>p. None),
                  httpGet = (\<lambda>url. Some (map of_nat url)) \<rparr>"

definition demoOptions :: TileSourceOptions where
  "demoOptions = \<lparr> opt_source = asc ''http://t/'', opt_cacheSize = Some 2,
                    opt_language = None \<rparr>"

definition demoSource :: "bytes TileSource" where
  "demoSource = \<lparr> mode = Http, source = asc ''http://t/'', db = None,
                   cache = Map.empty, cacheOrder = [], cacheSize = 2,
                   language = asc ''en'' \<rparr>"

section \<open>Canvas: filled polygons\<close>

text \<open>
  A point is a pair of pixel coordinates \<open>(x, y)\<close>.  The canvas keeps the width and height
  it was given; the buffer rounds them down to cell boundaries.
\<close>

type_synonym Point = "int \<times> int"

record Canvas =
  canvasWidth :: nat
  canvasHeight :: nat
  buffer :: BrailleBuffer

definition newCanvas :: "nat \<Rightarrow> nat \<Rightarrow> Canvas" where
  "newCanvas w h = \<lparr> canvasWidth = w, canvasHeight = h, buffer = newBrailleBuffer w h \<rparr>"

definition canvasClear :: "Canvas \<Rightarrow> Canvas" where
  "canvasClear c = c\<lparr> buffer := clear (buffer c) \<rparr>"

definition canvasSetBackground :: "nat \<Rightarrow> Canvas \<Rightarrow> Canvas" where
  "canvasSetBackground color c = c\<lparr> buffer := (buffer c)\<lparr> globalBackground := color \<rparr> \<rparr>"

text \<open>
  \<open>_bresenhamPoints\<close>: the \<^verbatim>\<open>for (;;)\<close> loop with its variables \<open>err\<close>, \<open>x\<close>, \<open>y\<close> and
  \<open>points\<close>.  The loop ends only when it reaches \<open>(bx, bY)\<close>, so its result is optional.
\<close>

definition nextErr :: "int \<Rightarrow> int \<Rightarrow> int \<Rightarrow> int" where
  "nextErr dx dy err =
     (let e2 = 2 * err;
          err1 = (if e2 > - dy then err - dy else err)
      in if e2 < dx then err1 + dx else err1)"

partial_function (option) bresenhamLoop ::
  "int \<Rightarrow> int \<Rightarrow> int \<Rightarrow> int \<Rightarrow> int \<Rightarrow> int \<Rightarrow> int \<Rightarrow> int \<Rightarrow> int \<Rightarrow> Point list
     \<Rightarrow> Point list option" where
  "bresenhamLoop bx bY dx dy sx sy err x y points =
     (if x = bx \<and> y = bY then Some (points @ [(x, y)])
      else bresenhamLoop bx bY dx dy sx sy (nextErr dx dy err)
             (if 2 * err > - dy then x + sx else x)
             (if 2 * err < dx then y + sy else y)
             (points @ [(x, y)]))"

declare bresenhamLoop.simps [code]

definition bresenhamPoints :: "int \<Rightarrow> int \<Rightarrow> int \<Rightarrow> int \<Rightarrow> Point list option" where
  "bresenhamPoints ax ay bx bY =
     (let dx = \<bar>bx - ax\<bar>;
          dy = \<bar>bY - ay\<bar>;
          sx = (if ax < bx then 1 else - 1);
          sy = (if ay < bY then 1 else - 1)
      in bresenhamLoop bx bY dx dy sx sy (dx - dy) ax ay [])"

text \<open>
  The scan loop of \<open>_filledTriangle\<close> over the sorted boundary points: a point and its
  successor on the same row are joined by a run of pixels, clipped to the canvas width.
\<close>

fun scanFill :: "Point list \<Rightarrow> nat \<Rightarrow> int \<Rightarrow> BrailleBuffer \<Rightarrow> BrailleBuffer" where
  "scanFill [] w color b = b"
| "scanFill [point] w color b = setPixel (fst point) (snd point) color b"
| "scanFill (point # next # rest) w color b =
     scanFill (next # rest) w color
       (if snd point = snd next then
          (let left = max 0 (fst point);
               right = min (int w - 1) (fst next)
           in fold (\<lambda>x. setPixel x (snd point) color) [left..right] b)
        else setPixel (fst point) (snd point) color b)"

text \<open>The comparator \<^verbatim>\<open>a.y === b.y ? a.x - b.x : a.y - b.y\<close> orders points by \<open>(y, x)\<close>.\<close>

definition filledTriangle :: "Point \<Rightarrow> Point \<Rightarrow> Point \<Rightarrow> int \<Rightarrow> Canvas \<Rightarrow> Canvas option" where
  "filledTriangle pa pb pc color c =
     (case bresenhamPoints (fst pb) (snd pb) (fst pc) (snd pc) of
        None \<Rightarrow> None
      | Some edgeA \<Rightarrow>
     (case bresenhamPoints (fst pa) (snd pa) (fst pc) (snd pc) of
        None \<Rightarrow> None
      | Some edgeB \<Rightarrow>
     (case bresenhamPoints (fst pa) (snd pa) (fst pb) (snd pb) of
        None \<Rightarrow> None
      | Some edgeC \<Rightarrow>
          (let allPoints =
                 sort_key (\<lambda>p. (snd p, fst p))
                   (filter (\<lambda>p. snd p \<ge> 0 \<and> snd p < int (canvasHeight c))
                      (edgeA @ edgeB @ edgeC))
           in Some (c\<lparr> buffer := scanFill allPoints (canvasWidth c) color (buffer c) \<rparr>)))))"

text \<open>\<^verbatim>\<open>[vertices[idx * 2], vertices[idx * 2 + 1]]\<close>; no point when an index is out of range.\<close>

definition extractVertex :: "int list \<Rightarrow> nat \<Rightarrow> Point option" where
  "extractVertex vertices idx =
     (case (arrayGet vertices (idx * 2), arrayGet vertices (idx * 2 + 1)) of
        (Some vx, Some vy) \<Rightarrow> Some (vx, vy)
      | _ \<Rightarrow> None)"

text \<open>
  The first loop of \<open>polygon\<close>, over the rings, with its variables \<open>vertices\<close> and \<open>holes\<close>;
  \<open>None\<close> is the early \<^verbatim>\<open>return false\<close>.
\<close>

fun collectRings :: "Point list list \<Rightarrow> int list \<Rightarrow> nat list \<Rightarrow> (int list \<times> nat list) option" where
  "collectRings [] vertices holes = Some (vertices, holes)"
| "collectRings (ring # rings) vertices holes =
     (if vertices \<noteq> [] then
        (if length ring < 3 then collectRings rings vertices holes
         else collectRings rings (vertices @ concat (map (\<lambda>p. [fst p, snd p]) ring))
                (holes @ [length vertices div 2]))
      else
        (if length ring < 3 then None
         else collectRings rings (vertices @ concat (map (\<lambda>p. [fst p, snd p]) ring)) holes))"

text \<open>The second loop, over the triangles three indices at a time.\<close>

fun fillTriangles :: "int list \<Rightarrow> nat list \<Rightarrow> int \<Rightarrow> Canvas \<Rightarrow> Canvas option" where
  "fillTriangles vertices (i # j # k # triangles) color c =
     (case (extractVertex vertices i, extractVertex vertices j, extractVertex vertices k) of
        (Some pa, Some pb, Some pc) \<Rightarrow>
          (case filledTriangle pa pb pc color c of
             None \<Rightarrow> None
           | Some c' \<Rightarrow> fillTriangles vertices triangles color c')
      | _ \<Rightarrow> None)"
| "fillTriangles vertices [] color c = Some c"
| "fillTriangles vertices _ color c = None"

text \<open>
  \<open>polygon\<close>.  \<open>earcut\<close> is the triangulation library: it returns vertex indices, three per
  triangle, or throws (\<open>None\<close>).  The result is the returned boolean and the canvas
  after the call; there is no result when a Bresenham loop does not end or the library
  hands back an index that is no vertex.
\<close>

definition polygon ::
  "(int list \<Rightarrow> nat list option \<Rightarrow> nat list option) \<Rightarrow> Point list list \<Rightarrow> int \<Rightarrow> Canvas
     \<Rightarrow> (bool \<times> Canvas) option" where
  "polygon earcut rings color c =
     (case collectRings rings [] [] of
        None \<Rightarrow> Some (False, c)
      | Some (vertices, holes) \<Rightarrow>
          (case earcut vertices (if holes \<noteq> [] then Some holes else None) of
             None \<Rightarrow> Some (False, c)
           | Some triangles \<Rightarrow>
               (case fillTriangles vertices triangles color c of
                  None \<Rightarrow> None
                | Some c' \<Rightarrow> Some (True, c'))))"

text \<open>
  Two stand-ins for the library: one that fans a single ring out from its first vertex,
  one that throws on every input.
\<close>

definition fanEarcut :: "int list \<Rightarrow> nat list option \<Rightarrow> nat list option" where
  "fanEarcut vertices holes =
     Some (concat (map (\<lambda>i. [0, i, i + 1]) [1..<length vertices div 2 - 1]))"

definition throwingEarcut :: "int list \<Rightarrow> nat list option \<Rightarrow> nat list option" where
  "throwingEarcut vertices holes = None"

section \<open>Binary64 arithmetic\<close>

text \<open>
  A JavaScript number is an IEEE 754 binary64 value.  A finite one is kept as the real
  number it denotes.  \<open>fl\<close> rounds a real to the nearest number with a 53-bit significand,
  ties to the even significand; a decimal literal of the source denotes \<open>fl\<close> of its
  value, and \<^verbatim>\<open>+\<close>, \<^verbatim>\<open>-\<close>, \<^verbatim>\<open>*\<close>, \<^verbatim>\<open>/\<close> are the exact operation followed by \<open>fl\<close>.
  Comparisons, unary minus, \<^verbatim>\<open>Math.min\<close> and \<^verbatim>\<open>Math.max\<close> are exact.  The exponent is
  not bounded: magnitudes from \<open>2^1024\<close> on (where binary64 gives \<^verbatim>\<open>Infinity\<close>) and below
  \<open>2^-1022\<close> (where it rounds on a coarser grid), \<^verbatim>\<open>NaN\<close> and the sign of zero are outside
  this model.
\<close>

definition pow2 :: "int \<Rightarrow> real" where
  "pow2 e = (if 0 \<le> e then 2 ^ nat e else 1 / 2 ^ nat (- e))"

text \<open>The binade of a non-zero number: the \<open>e\<close> with \<open>2^e \<le> |v| < 2^(e+1)\<close>.\<close>

definition binade :: "real \<Rightarrow> int" where
  "binade v = \<lfloor>log 2 \<bar>v\<bar>\<rfloor>"

definition roundToEven :: "real \<Rightarrow> int" where
  "roundToEven q =
     (let f = \<lfloor>q\<rfloor>;
          r = q - of_int f
      in if r < 1 / 2 then f
         else if r > 1 / 2 then f + 1
         else if even f then f else f + 1)"

definition fl :: "real \<Rightarrow> real" where
  "fl v =
     (if v = 0 then 0
      else of_int (roundToEven (v / pow2 (binade v - 52))) * pow2 (binade v - 52))"

definition fadd :: "real \<Rightarrow> real \<Rightarrow> real" where
  "fadd a b = fl (a + b)"

definition fsub :: "real \<Rightarrow> real \<Rightarrow> real" where
  "fsub a b = fl (a - b)"

definition fmul :: "real \<Rightarrow> real \<Rightarrow> real" where
  "fmul a b = fl (a * b)"

definition fdiv :: "real \<Rightarrow> real \<Rightarrow> real" where
  "fdiv a b = fl (a / b)"

section \<open>Map utilities\<close>

text \<open>
  Coordinates, zoom levels and distances are binary64 numbers.  The functions built from
  comparisons and the four arithmetic operations (\<open>clamp\<close>, \<open>normalize\<close>, and below the
  zoom steps and \<open>fitBounds\<close>) round as the code does.  The functions that go through
  \<^verbatim>\<open>Math.pow\<close>, \<^verbatim>\<open>Math.tan\<close>, \<^verbatim>\<open>Math.cos\<close>, \<^verbatim>\<open>Math.log\<close>, \<^verbatim>\<open>Math.exp\<close> and \<^verbatim>\<open>Math.atan\<close>
  (\<open>ll2tile\<close>, \<open>tile2ll\<close>, \<open>tileSizeAtZoom\<close>, \<open>metersPerPixel\<close>, and with them \<open>pan\<close> and the
  scale bar) are written over the reals, with \<^verbatim>\<open>Math.PI\<close> as \<open>pi\<close> and \<^verbatim>\<open>Math.pow(2, z)\<close> as
  \<open>2 powr z\<close>: the language leaves the precision of these library functions to the
  implementation.
\<close>

definition EARTH_RADIUS :: real where
  "EARTH_RADIUS = 6378137"

definition TILE_SIZE :: real where
  "TILE_SIZE = 256"

record LatLon =
  lat :: real
  lon :: real

definition clamp :: "real \<Rightarrow> real \<Rightarrow> real \<Rightarrow> real" where
  "clamp num mn mx = (if num \<le> mn then mn else if num \<ge> mx then mx else num)"

definition rad2deg :: "real \<Rightarrow> real" where
  "rad2deg angle = angle * 57.29577951308232"

text \<open>\<open>ll2tile\<close> returns the fractional tile coordinates \<open>(x, y)\<close>; its \<open>z\<close> is the zoom given.\<close>

definition ll2tile :: "real \<Rightarrow> real \<Rightarrow> real \<Rightarrow> real \<times> real" where
  "ll2tile lo la zm =
     (let n = 2 powr zm
      in (((lo + 180) / 360) * n,
          ((1 - ln (tan ((la * pi) / 180) + 1 / cos ((la * pi) / 180)) / pi) / 2) * n))"

definition tile2ll :: "real \<Rightarrow> real \<Rightarrow> real \<Rightarrow> LatLon" where
  "tile2ll tx ty zm =
     (let n = pi - (2 * pi * ty) / (2 powr zm)
      in \<lparr> lat = rad2deg (arctan (0.5 * (exp n - exp (- n)))),
           lon = (tx / (2 powr zm)) * 360 - 180 \<rparr>)"

definition baseZoom :: "real \<Rightarrow> int" where
  "baseZoom zm = min 14 (max 0 \<lfloor>zm\<rfloor>)"

definition tileSizeAtZoom :: "real \<Rightarrow> real" where
  "tileSizeAtZoom zm = TILE_SIZE * 2 powr (zm - real_of_int (baseZoom zm))"

definition metersPerPixel :: "real \<Rightarrow> real \<Rightarrow> real" where
  "metersPerPixel zm la =
     (cos ((la * pi) / 180) * 2 * pi * EARTH_RADIUS) / (256 * 2 powr zm)"

definition normalize :: "LatLon \<Rightarrow> LatLon" where
  "normalize ll =
     (let lon1 = (if lon ll < - 180 then fadd (lon ll) 360 else lon ll);
          lon2 = (if lon1 > 180 then fsub lon1 360 else lon1);
          lat1 = clamp (lat ll) (- fl 85.0511) (fl 85.0511)
      in \<lparr> lat = lat1, lon = lon2 \<rparr>)"

text \<open>
  \<open>formatDistance\<close>: \<^verbatim>\<open>Math.round(m)\<close> is \<open>\<lfloor>m + 1/2\<rfloor>\<close>; \<^verbatim>\<open>toFixed(1)\<close> of a non-negative
  number prints the nearest multiple of a tenth (the larger one on a tie).
\<close>

definition toFixed1 :: "real \<Rightarrow> jsstring" where
  "toFixed1 v =
     (let n = nat \<lfloor>v * 10 + 1 / 2\<rfloor>
      in decimal (n div 10) @ asc ''.'' @ decimal (n mod 10))"

definition formatDistance :: "real \<Rightarrow> jsstring" where
  "formatDistance metres =
     (if metres < 1000 then numberToString \<lfloor>metres + 1 / 2\<rfloor> @ asc '' m''
      else toFixed1 (metres / 1000) @ asc '' km'')"

section \<open>MapRenderer\<close>

definition MAX_ZOOM :: real where "MAX_ZOOM = 18"
definition MIN_ZOOM :: real where "MIN_ZOOM = 0"
definition ZOOM_STEP :: real where "ZOOM_STEP = 0.5"
definition PAN_PIXELS :: real where "PAN_PIXELS = 32"

record MapState =
  center :: LatLon
  zoom :: real

text \<open>A visible tile: \<open>xyz\<close> is \<open>(x, y, z)\<close>; \<open>data\<close> is absent until the tile is loaded.\<close>

record 't VisibleTile =
  xyz :: "int \<times> int \<times> int"
  tileZoom :: real
  position :: "real \<times> real"
  size :: real
  data :: "'t option"

text \<open>An accepted label rectangle \<open>(minX, minY, maxX, maxY, text)\<close> of the label buffer.\<close>

type_synonym LabelEntry = "int \<times> int \<times> int \<times> int \<times> jsstring"

text \<open>
  The renderer.  \<open>backgroundStyle\<close> is the colour of the compiled style named
  \<open>background\<close>, if the style set has one.
\<close>

record 't MapRenderer =
  tileSource :: "'t TileSource"
  canvas :: Canvas
  labelBuffer :: "LabelEntry list"
  backgroundStyle :: "nat option"
  viewWidth :: nat
  viewHeight :: nat
  isDrawing :: bool
  state :: MapState
  gpsPosition :: "LatLon option"
  waypoint :: "LatLon option"
  route :: "LatLon list option"
  routeStart :: "LatLon option"
  routeEnd :: "LatLon option"

record RenderResult =
  lines :: "jsstring list"
  plainLines :: "jsstring list"
  coloredCells :: "ColoredCell list list"
  resultCenter :: LatLon
  resultZoom :: real
  scale :: jsstring

definition scaleBar :: "'t MapRenderer \<Rightarrow> jsstring" where
  "scaleBar r =
     (let mpp = metersPerPixel (zoom (state r)) (lat (center (state r)));
          scaleMeters = mpp * 40
      in formatDistance scaleMeters)"

text \<open>The object both \<^verbatim>\<open>return\<close> statements of \<open>draw\<close> build from the canvas and the state.\<close>

definition currentFrame :: "'t MapRenderer \<Rightarrow> RenderResult" where
  "currentFrame r =
     \<lparr> lines = toLines (buffer (canvas r)),
       plainLines = toPlainLines (buffer (canvas r)),
       coloredCells = toColoredCells (buffer (canvas r)),
       resultCenter = center (state r),
       resultZoom = zoom (state r),
       scale = scaleBar r \<rparr>"

text \<open>\<^verbatim>\<open>tx % gridSize\<close> on integers: the remainder has the sign of \<open>tx\<close>.\<close>

definition jsRemainder :: "int \<Rightarrow> int \<Rightarrow> int" where
  "jsRemainder a n = sgn a * (\<bar>a\<bar> mod \<bar>n\<bar>)"

definition visibleTiles :: "'t MapRenderer \<Rightarrow> 't VisibleTile list" where
  "visibleTiles r =
     (let z = baseZoom (zoom (state r));
          c = ll2tile (lon (center (state r))) (lat (center (state r))) (real_of_int z);
          tileSize = tileSizeAtZoom (zoom (state r));
          gridSize = (2 :: int) ^ nat z
      in concat (map (\<lambda>ty. concat (map (\<lambda>tx.
           (let pos = (real (viewWidth r) / 2 - (fst c - real_of_int tx) * tileSize,
                       real (viewHeight r) / 2 - (snd c - real_of_int ty) * tileSize);
                wrapped = jsRemainder tx gridSize;
                wrappedX = (if wrapped < 0 then (if z = 0 then 0 else wrapped + gridSize)
                            else wrapped)
            in if ty < 0 \<or> ty \<ge> gridSize \<or>
                  fst pos + tileSize < 0 \<or> snd pos + tileSize < 0 \<or>
                  fst pos > real (viewWidth r) \<or> snd pos > real (viewHeight r)
               then []
               else [\<lparr> xyz = (wrappedX, ty, z), tileZoom = zoom (state r),
                       position = pos, size = tileSize, data = None \<rparr>]))
           [\<lfloor>fst c\<rfloor> - 1 .. \<lfloor>fst c\<rfloor> + 1]))
           [\<lfloor>snd c\<rfloor> - 1 .. \<lfloor>snd c\<rfloor> + 1]))"

text \<open>
  The body of the \<^verbatim>\<open>tiles.map(async (tile) => ...)\<close> of \<open>draw\<close>: the \<^verbatim>\<open>try\<close> around
  \<open>getTile\<close> with its empty \<^verbatim>\<open>catch\<close>.  \<open>loadTiles\<close> takes the loads of one frame one after
  the other, in list order, each as a call that nothing overlaps.  The \<^verbatim>\<open>Promise.all\<close> of the
  code lets the fetches of one frame overlap in \<open>http\<close> mode; what that does to the cache is
  the subject of \<open>runEvents\<close>, not of \<open>loadTiles\<close>.
\<close>

definition loadTile ::
  "'t World \<Rightarrow> 't VisibleTile \<Rightarrow> 't TileSource \<Rightarrow> 't VisibleTile \<times> 't TileSource" where
  "loadTile world tile ts =
     (case xyz tile of (tx, ty, tz) \<Rightarrow>
        (case getTile world ts tz tx ty of
           (Inl e, ts') \<Rightarrow> (tile, ts')
         | (Inr parsed, ts') \<Rightarrow> (tile\<lparr> data := Some parsed \<rparr>, ts')))"

fun loadTiles ::
  "'t World \<Rightarrow> 't VisibleTile list \<Rightarrow> 't TileSource \<Rightarrow> 't VisibleTile list \<times> 't TileSource" where
  "loadTiles world [] ts = ([], ts)"
| "loadTiles world (tile # tiles) ts =
     (case loadTile world tile ts of
        (tile', ts') \<Rightarrow> (case loadTiles world tiles ts' of (tiles', ts'') \<Rightarrow> (tile' # tiles', ts'')))"

text \<open>
  \<open>draw\<close> is asynchronous with one \<^verbatim>\<open>await\<close>, on the tile loads.  A call therefore runs in
  two steps.  \<open>drawEnter\<close> is the part up to the \<^verbatim>\<open>await\<close>: it either returns a frame at once
  (the renderer is already drawing) or leaves the call waiting for the listed tiles.
  \<open>drawResume\<close> is the part after the \<^verbatim>\<open>await\<close>.  Other calls on the renderer can run
  between the two steps, and only there.
\<close>

datatype 't DrawStep = Returned RenderResult | Awaiting "'t VisibleTile list"

definition drawEnter :: "'t MapRenderer \<Rightarrow> 't DrawStep \<times> 't MapRenderer" where
  "drawEnter r =
     (if isDrawing r then (Returned (currentFrame r), r)
      else
        (let r1 = r\<lparr> isDrawing := True, labelBuffer := [] \<rparr>;
             r2 = (case backgroundStyle r1 of
                     Some color \<Rightarrow> r1\<lparr> canvas := canvasSetBackground color (canvas r1) \<rparr>
                   | None \<Rightarrow> r1);
             r3 = r2\<lparr> canvas := canvasClear (canvas r2) \<rparr>
         in (Awaiting (visibleTiles r3), r3)))"

text \<open>
  \<open>paint\<close> stands for the drawing between the tile loads and the \<^verbatim>\<open>return\<close>
  (\<open>_extractTileFeatures\<close>, \<open>_renderTiles\<close> and the three overlays): it writes the canvas
  and the label buffer and no other field of the renderer.
\<close>

definition drawResume ::
  "'t World \<Rightarrow> ('t MapRenderer \<Rightarrow> 't VisibleTile list \<Rightarrow> Canvas \<times> LabelEntry list)
     \<Rightarrow> 't VisibleTile list \<Rightarrow> 't MapRenderer \<Rightarrow> RenderResult \<times> 't MapRenderer" where
  "drawResume world paint tiles r =
     (case loadTiles world tiles (tileSource r) of
        (tiles', ts') \<Rightarrow>
          (let r1 = r\<lparr> tileSource := ts' \<rparr>;
               r2 = (case paint r1 tiles' of
                       (c, ls) \<Rightarrow> r1\<lparr> canvas := c, labelBuffer := ls \<rparr>)
           in (currentFrame r2, r2\<lparr> isDrawing := False \<rparr>)))"

subsection \<open>Mutators\<close>

definition pan :: "real \<Rightarrow> real \<Rightarrow> 't MapRenderer \<Rightarrow> 't MapRenderer" where
  "pan dx dy r =
     (let z = real_of_int (baseZoom (zoom (state r)));
          tileSize = tileSizeAtZoom (zoom (state r));
          c = ll2tile (lon (center (state r))) (lat (center (state r))) z;
          cx = fst c + dx / tileSize;
          cy = snd c + dy / tileSize;
          ll = tile2ll cx cy z
      in r\<lparr> state := (state r)\<lparr> center := normalize ll \<rparr> \<rparr>)"

definition panLeft :: "'t MapRenderer \<Rightarrow> 't MapRenderer" where
  "panLeft r = pan (- PAN_PIXELS) 0 r"

definition panRight :: "'t MapRenderer \<Rightarrow> 't MapRenderer" where
  "panRight r = pan PAN_PIXELS 0 r"

definition panUp :: "'t MapRenderer \<Rightarrow> 't MapRenderer" where
  "panUp r = pan 0 (- PAN_PIXELS) r"

definition panDown :: "'t MapRenderer \<Rightarrow> 't MapRenderer" where
  "panDown r = pan 0 PAN_PIXELS r"

definition zoomIn :: "'t MapRenderer \<Rightarrow> 't MapRenderer" where
  "zoomIn r = r\<lparr> state := (state r)\<lparr> zoom := min MAX_ZOOM (fadd (zoom (state r)) ZOOM_STEP) \<rparr> \<rparr>"

definition zoomOut :: "'t MapRenderer \<Rightarrow> 't MapRenderer" where
  "zoomOut r = r\<lparr> state := (state r)\<lparr> zoom := max MIN_ZOOM (fsub (zoom (state r)) ZOOM_STEP) \<rparr> \<rparr>"

definition centerOn :: "LatLon \<Rightarrow> 't MapRenderer \<Rightarrow> 't MapRenderer" where
  "centerOn ll r = r\<lparr> state := (state r)\<lparr> center := normalize ll \<rparr> \<rparr>"

definition setWaypoint :: "LatLon \<Rightarrow> 't MapRenderer \<Rightarrow> 't MapRenderer" where
  "setWaypoint ll r = r\<lparr> waypoint := Some (normalize ll) \<rparr>"

text \<open>
  The bounds loop of \<open>fitBounds\<close>.  A running minimum starts at \<^verbatim>\<open>Infinity\<close> and a running
  maximum at \<^verbatim>\<open>-Infinity\<close>, written \<open>None\<close>; every number is below the one and above the
  other.
\<close>

definition lowerTo :: "real \<Rightarrow> real option \<Rightarrow> real option" where
  "lowerTo v m = (case m of None \<Rightarrow> Some v | Some w \<Rightarrow> if v < w then Some v else Some w)"

definition raiseTo :: "real \<Rightarrow> real option \<Rightarrow> real option" where
  "raiseTo v m = (case m of None \<Rightarrow> Some v | Some w \<Rightarrow> if v > w then Some v else Some w)"

fun boundsOf ::
  "LatLon list \<Rightarrow> real option \<times> real option \<times> real option \<times> real option
     \<Rightarrow> real option \<times> real option \<times> real option \<times> real option" where
  "boundsOf [] acc = acc"
| "boundsOf (p # ps) (minLat, maxLat, minLon, maxLon) =
     boundsOf ps (lowerTo (lat p) minLat, raiseTo (lat p) maxLat,
                  lowerTo (lon p) minLon, raiseTo (lon p) maxLon)"

definition zoomForSpan :: "real \<Rightarrow> real" where
  "zoomForSpan spanMax =
     (if spanMax < fl 0.001 then 17
      else if spanMax < fl 0.005 then 16
      else if spanMax < fl 0.01 then 15
      else if spanMax < fl 0.05 then 13
      else if spanMax < fl 0.1 then 12
      else if spanMax < 0.5 then 10
      else if spanMax < 1 then 9
      else if spanMax < 2 then 8
      else if spanMax < 5 then 7
      else if spanMax < 10 then 6
      else 5)"

text \<open>\<open>fitBounds\<close>; the padding argument is optional and defaults to 0.2.\<close>

definition fitBounds :: "LatLon list \<Rightarrow> real option \<Rightarrow> 't MapRenderer \<Rightarrow> 't MapRenderer" where
  "fitBounds points paddingArg r =
     (let padding = (case paddingArg of None \<Rightarrow> fl 0.2 | Some p \<Rightarrow> p) in
      if length points = 0 then r
      else
        (case boundsOf points (None, None, None, None) of
           (Some minLat, Some maxLat, Some minLon, Some maxLon) \<Rightarrow>
             (let c = normalize \<lparr> lat = fdiv (fadd minLat maxLat) 2,
                                  lon = fdiv (fadd minLon maxLon) 2 \<rparr>;
                  latSpan = fmul (fsub maxLat minLat) (fadd 1 padding);
                  lonSpan = fmul (fsub maxLon minLon) (fadd 1 padding);
                  spanMax = max latSpan lonSpan
              in r\<lparr> state := \<lparr> center = c, zoom = zoomForSpan spanMax \<rparr> \<rparr>)
         | _ \<Rightarrow> r))"

text \<open>The constructor; the initial state is optional, field by field.\<close>

definition newMapRenderer ::
  "'t World \<Rightarrow> nat \<Rightarrow> nat \<Rightarrow> TileSourceOptions \<Rightarrow> nat option \<Rightarrow> LatLon option \<Rightarrow> real option
     \<Rightarrow> error + 't MapRenderer" where
  "newMapRenderer world w h tileSourceOptions background initialCenter initialZoom =
     (case newTileSource world tileSourceOptions of
        Inl e \<Rightarrow> Inl e
      | Inr ts \<Rightarrow>
          Inr \<lparr> tileSource = ts, canvas = newCanvas w h, labelBuffer = [],
                backgroundStyle = background, viewWidth = w, viewHeight = h,
                isDrawing = False,
                state = \<lparr> center = (case initialCenter of
                                       None \<Rightarrow> \<lparr> lat = fl 53.3498, lon = - fl 6.2603 \<rparr>
                                     | Some c \<Rightarrow> c),
                          zoom = (case initialZoom of None \<Rightarrow> 12 | Some z \<Rightarrow> z) \<rparr>,
                gpsPosition = None, waypoint = None, route = None,
                routeStart = None, routeEnd = None \<rparr>)"

text \<open>A renderer over the demo tile source, 8 by 8 pixels, with the default state.\<close>

definition demoRenderer :: "bytes MapRenderer" where
  "demoRenderer =
     \<lparr> tileSource = demoSource, canvas = newCanvas 8 8, labelBuffer = [],
       backgroundStyle = None, viewWidth = 8, viewHeight = 8,
       isDrawing = False,
       state = \<lparr> center = \<lparr> lat = fl 53.3498, lon = - fl 6.2603 \<rparr>, zoom = 12 \<rparr>,
       gpsPosition = None, waypoint = None, route = None,
       routeStart = None, routeEnd = None \<rparr>"

subsection \<open>Sequences of mutator calls\<close>

datatype Mutator =
    Pan real real
  | PanLeft
  | PanRight
  | PanUp
  | PanDown
  | ZoomIn
  | ZoomOut
  | CenterOn LatLon
  | SetWaypoint LatLon
  | FitBounds "LatLon list" "real option"

fun mutate :: "Mutator \<Rightarrow> 't MapRenderer \<Rightarrow> 't MapRenderer" where
  "mutate (Pan dx dy) r = pan dx dy r"
| "mutate PanLeft r = panLeft r"
| "mutate PanRight r = panRight r"
| "mutate PanUp r = panUp r"
| "mutate PanDown r = panDown r"
| "mutate ZoomIn r = zoomIn r"
| "mutate ZoomOut r = zoomOut r"
| "mutate (CenterOn ll) r = centerOn ll r"
| "mutate (SetWaypoint ll) r = setWaypoint ll r"
| "mutate (FitBounds points padding) r = fitBounds points padding r"

definition zoomInRange :: "MapState \<Rightarrow> bool" where
  "zoomInRange s \<longleftrightarrow> MIN_ZOOM \<le> zoom s \<and> zoom s \<le> MAX_ZOOM"

definition latInRange :: "MapState \<Rightarrow> bool" where
  "latInRange s \<longleftrightarrow> - fl 85.0511 \<le> lat (center s) \<and> lat (center s) \<le> fl 85.0511"

definition lonInRange :: "MapState \<Rightarrow> bool" where
  "lonInRange s \<longleftrightarrow> - 180 \<le> lon (center s) \<and> lon (center s) \<le> 180"

subsection \<open>A drawing session\<close>

text \<open>
  A world whose server answers with three bytes that start like a gzip stream and break
  off; zlib rejects them.
\<close>

definition corruptWorld :: "bytes World" where
  "corruptWorld = demoWorld\<lparr> httpGet := (\<lambda>url. Some [0x1f, 0x8b, 0x08]) \<rparr>"

text \<open>A painter that sets one dot, whatever the tiles hold.\<close>

definition demoPaint :: "bytes MapRenderer \<Rightarrow> bytes VisibleTile list \<Rightarrow> Canvas \<times> LabelEntry list" where
  "demoPaint r tiles = ((canvas r)\<lparr> buffer := setPixel 2 1 5 (buffer (canvas r)) \<rparr>, [])"

definition awaited :: "'t DrawStep \<Rightarrow> 't VisibleTile list" where
  "awaited step = (case step of Awaiting tiles \<Rightarrow> tiles | Returned f \<Rightarrow> [])"

text \<open>
  A first \<open>draw\<close> run to its end on the demo renderer, and the renderer in the middle of
  the next \<open>draw\<close>, at its \<^verbatim>\<open>await\<close>.
\<close>

definition demoFirstDraw :: "RenderResult \<times> bytes MapRenderer" where
  "demoFirstDraw =
     drawResume demoWorld demoPaint (awaited (fst (drawEnter demoRenderer)))
       (snd (drawEnter demoRenderer))"

definition demoMidDraw :: "bytes MapRenderer" where
  "demoMidDraw = snd (drawEnter (snd demoFirstDraw))"

section \<open>Colour conversion: hex to terminal index\<close>

definition hexValue :: "nat \<Rightarrow> nat option" where
  "hexValue c =
     (if 48 \<le> c \<and> c \<le> 57 then Some (c - 48)
      else if 97 \<le> c \<and> c \<le> 102 then Some (c - 87)
      else if 65 \<le> c \<and> c \<le> 70 then Some (c - 55)
      else None)"

text \<open>
  \<^verbatim>\<open>parseInt(s, 16)\<close> on a string that starts with a hex digit or with none: the value of
  the longest prefix of hex digits, \<^verbatim>\<open>NaN\<close> (\<open>None\<close>) when that prefix is empty.  Leading
  white space, a sign and a \<^verbatim>\<open>0x\<close> prefix, which \<^verbatim>\<open>parseInt\<close> also accepts, are left out;
  no string used below has them.
\<close>

fun hexPrefix :: "jsstring \<Rightarrow> nat option \<Rightarrow> nat option" where
  "hexPrefix [] acc = acc"
| "hexPrefix (c # cs) acc =
     (case hexValue c of
        None \<Rightarrow> acc
      | Some d \<Rightarrow> hexPrefix cs (Some ((case acc of None \<Rightarrow> 0 | Some a \<Rightarrow> a) * 16 + d)))"

definition parseInt16 :: "jsstring \<Rightarrow> nat option" where
  "parseInt16 s = hexPrefix s None"

text \<open>\<^verbatim>\<open>color.replace("#", "")\<close>: the first \<open>#\<close> is removed.\<close>

fun removeFirstHash :: "jsstring \<Rightarrow> jsstring" where
  "removeFirstHash [] = []"
| "removeFirstHash (c # cs) = (if c = 35 then cs else c # removeFirstHash cs)"

text \<open>
  \<open>hex2rgb\<close>.  A channel is \<open>None\<close> where the code has \<^verbatim>\<open>NaN\<close>.  On the long form,
  \<^verbatim>\<open>(decimal >> 16) & 255\<close> and its siblings take bits of the 32-bit value, and of \<^verbatim>\<open>NaN\<close>
  they are 0.
\<close>

definition hex2rgb :: "jsstring \<Rightarrow> nat option \<times> nat option \<times> nat option" where
  "hex2rgb colorArg =
     (let color = removeFirstHash colorArg in
      if length color = 3 then
        (parseInt16 [color ! 0, color ! 0],
         parseInt16 [color ! 1, color ! 1],
         parseInt16 [color ! 2, color ! 2])
      else
        (let decimal32 = (case parseInt16 color of None \<Rightarrow> 0 | Some d \<Rightarrow> d mod 2 ^ 32)
         in (Some ((decimal32 div 2 ^ 16) mod 256),
             Some ((decimal32 div 2 ^ 8) mod 256),
             Some (decimal32 mod 256))))"

text \<open>\<^verbatim>\<open>Math.round(v)\<close> is \<open>\<lfloor>v + 1/2\<rfloor>\<close>.\<close>

definition mathRound :: "real \<Rightarrow> int" where
  "mathRound v = \<lfloor>v + 1 / 2\<rfloor>"

definition rgb2xterm :: "nat \<Rightarrow> nat \<Rightarrow> nat \<Rightarrow> int" where
  "rgb2xterm r g b =
     (if r = g \<and> g = b then
        (if r < 8 then 16
         else if r > 248 then 231
         else mathRound ((real r - 8) / 247 * 23) + 232)
      else
        (let ri = mathRound (real r / 255 * 5);
             gi = mathRound (real g / 255 * 5);
             bi = mathRound (real b / 255 * 5)
         in 16 + 36 * ri + 6 * gi + bi))"

text \<open>
  \<open>hex2xterm\<close>, for a string whose three channels are numbers; a \<^verbatim>\<open>NaN\<close> channel (only
  possible on a malformed three-character string) has no model here.
\<close>

definition hex2xterm :: "jsstring \<Rightarrow> int option" where
  "hex2xterm hex =
     (case hex2rgb hex of
        (Some r, Some g, Some b) \<Rightarrow> Some (rgb2xterm r g b)
      | _ \<Rightarrow> None)"

text \<open>The 24 entries of the greyscale ramp, as \<open>xterm2hex\<close> has them: 8, 18, ..., 238.\<close>

definition greyRamp :: "nat list" where
  "greyRamp = map (\<lambda>k. 8 + k * 10) [0..<24]"

section \<open>Properties\<close>

subsection \<open>Pixel operations\<close>


lemma dotMask_cases:
  "\<exists>k<8. dotMask x y = Some (push_bit k 1)"
proof -
  have "take_bit 2 y \<in> {0,1,2,3}"
  proof -
    have "take_bit 2 y = y mod 4" by (simp add: take_bit_eq_mod)
    moreover have "y mod 4 = 0 \<or> y mod 4 = 1 \<or> y mod 4 = 2 \<or> y mod 4 = 3" by presburger
    ultimately show ?thesis by auto
  qed
  moreover have "take_bit 1 x \<in> {0,1}"
  proof -
    have "take_bit 1 x = x mod 2" by (simp add: take_bit_eq_mod)
    moreover have "x mod 2 = 0 \<or> x mod 2 = 1" by presburger
    ultimately show ?thesis by auto
  qed
  moreover have "\<exists>k<8. (1::8 word) = push_bit k 1" by (rule exI[of _ 0]) simp
  moreover have "\<exists>k<8. (8::8 word) = push_bit k 1" by (rule exI[of _ 3]) simp
  moreover have "\<exists>k<8. (2::8 word) = push_bit k 1" by (rule exI[of _ 1]) simp
  moreover have "\<exists>k<8. (16::8 word) = push_bit k 1" by (rule exI[of _ 4]) simp
  moreover have "\<exists>k<8. (4::8 word) = push_bit k 1" by (rule exI[of _ 2]) simp
  moreover have "\<exists>k<8. (32::8 word) = push_bit k 1" by (rule exI[of _ 5]) simp
  moreover have "\<exists>k<8. (64::8 word) = push_bit k 1" by (rule exI[of _ 6]) simp
  moreover have "\<exists>k<8. (128::8 word) = push_bit k 1" by (rule exI[of _ 7]) simp
  ultimately show ?thesis
    by (auto simp: dotMask_def arrayGet_def BRAILLE_MAP_def)
qed

lemma cellIndex_in_range:
  assumes "wellFormed b" "\<not> outOfBounds b x y"
  shows "cellIndex b x y < charWidth b * charHeight b"
proof -
  from assms have x: "0 \<le> x" "x < 2 * int (charWidth b)" and y: "0 \<le> y" "y < 4 * int (charHeight b)"
    by (auto simp: wellFormed_def outOfBounds_def)
  define cx where "cx = nat (drop_bit 1 x)"
  define cy where "cy = nat (drop_bit 2 y)"
  have "cx < charWidth b" using x by (simp add: cx_def drop_bit_eq_div)
  moreover have "cy < charHeight b" using y by (simp add: cy_def drop_bit_eq_div)
  ultimately have "cx + charWidth b * cy < charWidth b * charHeight b"
    by (metis add.commute mult.commute mult_Suc_right Suc_leI mult_le_mono1 add_less_mono1 less_le_trans Groups.add_ac(2) nat_add_left_cancel_less)
  then show ?thesis by (simp add: cellIndex_def cx_def cy_def)
qed

lemma bit_clear: "k < 8 \<Longrightarrow> bit ((w::8 word) AND NOT (2 ^ k)) n \<longleftrightarrow> bit w n \<and> n \<noteq> k"
  by (auto simp: bit_simps dest: bit_imp_le_length)

lemma replicate_numeral_unfold:
  "replicate (numeral k) x = x # replicate (pred_numeral k) x"
  by (simp add: numeral_eq_Suc)


text \<open>
  Claim C10.  On a well-formed buffer, \<open>unsetPixel x y\<close> with an in-range pixel clears
  exactly the dot bit that \<open>BRAILLE_MAP\<close> assigns to \<open>(x, y)\<close> in the containing cell:
  the other seven bits of that cell and every other cell keep their value, and the
  foreground, background and override-glyph arrays (all fields but \<open>pixelBuffer\<close>) are
  untouched.  With an out-of-range pixel the buffer is returned as it was.
\<close>

theorem unsetPixel_frame:
  assumes "wellFormed b"
  shows "(\<not> outOfBounds b x y \<longrightarrow>
           (\<exists>k<8. dotMask x y = Some (push_bit k 1) \<and>
              cellIndex b x y < length (pixelBuffer b) \<and>
              (\<forall>n. bit (pixelBuffer (unsetPixel x y b) ! cellIndex b x y) n \<longleftrightarrow>
                     bit (pixelBuffer b ! cellIndex b x y) n \<and> n \<noteq> k) \<and>
              (\<forall>j. j \<noteq> cellIndex b x y \<longrightarrow>
                     pixelBuffer (unsetPixel x y b) ! j = pixelBuffer b ! j) \<and>
              length (pixelBuffer (unsetPixel x y b)) = length (pixelBuffer b) \<and>
              unsetPixel x y b = b\<lparr>pixelBuffer := pixelBuffer (unsetPixel x y b)\<rparr>)) \<and>
         (outOfBounds b x y \<longrightarrow> unsetPixel x y b = b)"
proof (intro conjI impI)
  assume inb: "\<not> outOfBounds b x y"
  obtain k where k: "k < 8" "dotMask x y = Some (push_bit k 1)"
    using dotMask_cases by blast
  have i: "cellIndex b x y < length (pixelBuffer b)"
    using cellIndex_in_range [OF assms inb] assms by (simp add: wellFormed_def)
  have u: "unsetPixel x y b =
      b\<lparr>pixelBuffer := (pixelBuffer b)[cellIndex b x y :=
            (pixelBuffer b ! cellIndex b x y) AND NOT (push_bit k 1)]\<rparr>"
    using inb k by (simp add: unsetPixel_def Let_def)
  show "\<exists>k<8. dotMask x y = Some (push_bit k 1) \<and>
              cellIndex b x y < length (pixelBuffer b) \<and>
              (\<forall>n. bit (pixelBuffer (unsetPixel x y b) ! cellIndex b x y) n \<longleftrightarrow>
                     bit (pixelBuffer b ! cellIndex b x y) n \<and> n \<noteq> k) \<and>
              (\<forall>j. j \<noteq> cellIndex b x y \<longrightarrow>
                     pixelBuffer (unsetPixel x y b) ! j = pixelBuffer b ! j) \<and>
              length (pixelBuffer (unsetPixel x y b)) = length (pixelBuffer b) \<and>
              unsetPixel x y b = b\<lparr>pixelBuffer := pixelBuffer (unsetPixel x y b)\<rparr>"
  proof (intro exI[of _ k] conjI allI impI)
    show "k < 8" by (rule k)
    show "dotMask x y = Some (push_bit k 1)" by (rule k)
    show "cellIndex b x y < length (pixelBuffer b)" by (rule i)
    show "bit (pixelBuffer (unsetPixel x y b) ! cellIndex b x y) n \<longleftrightarrow>
          bit (pixelBuffer b ! cellIndex b x y) n \<and> n \<noteq> k" for n
      using i k(1) by (simp add: u bit_clear)
    show "pixelBuffer (unsetPixel x y b) ! j = pixelBuffer b ! j" if "j \<noteq> cellIndex b x y" for j
      using that by (simp add: u)
    show "length (pixelBuffer (unsetPixel x y b)) = length (pixelBuffer b)"
      by (simp add: u)
    show "unsetPixel x y b = b\<lparr>pixelBuffer := pixelBuffer (unsetPixel x y b)\<rparr>"
      by (simp add: u)
  qed
next
  assume "outOfBounds b x y"
  then show "unsetPixel x y b = b" by (simp add: unsetPixel_def)
qed

lemma wellFormed_new: "wellFormed (newBrailleBuffer w h)"
  by (simp add: wellFormed_def newBrailleBuffer_def Let_def drop_bit_eq_div)

lemma demoBuffer_eq: "demoBuffer = \<lparr> width = 4, height = 8, charWidth = 2, charHeight = 2,
           pixelBuffer = [0, 0x22, 0, 0],
           foregroundBuffer = [0, 7, 0, 0],
           backgroundBuffer = [0,0,0,0],
           charBuffer = [None, None, None, None],
           globalBackground = 0 \<rparr>"
  by (simp add: demoBuffer_def setPixel_def newBrailleBuffer_def outOfBounds_def cellIndex_def
      dotMask_def arrayGet_def BRAILLE_MAP_def Let_def drop_bit_eq_div take_bit_eq_mod
      replicate_numeral_unfold)

theorem unsetPixel_frame_witness:
  "wellFormed demoBuffer \<and> \<not> outOfBounds demoBuffer 2 1 \<and> outOfBounds demoBuffer 4 1 \<and>
   pixelBuffer (unsetPixel 2 1 demoBuffer) = [0, 0x20, 0, 0] \<and>
   length (pixelBuffer (unsetPixel 2 1 demoBuffer)) = length (pixelBuffer demoBuffer) \<and>
   unsetPixel 4 1 demoBuffer = demoBuffer"
proof -
  have wf: "wellFormed demoBuffer"
    by (simp add: demoBuffer_eq wellFormed_def)
  have inb: "\<not> outOfBounds demoBuffer 2 1" and oob: "outOfBounds demoBuffer 4 1"
    by (simp_all add: demoBuffer_eq outOfBounds_def)
  have px: "pixelBuffer (unsetPixel 2 1 demoBuffer) = [0, 0x20, 0, 0]"
    by (simp add: demoBuffer_eq unsetPixel_def outOfBounds_def cellIndex_def
      dotMask_def arrayGet_def BRAILLE_MAP_def Let_def drop_bit_eq_div take_bit_eq_mod)
  from unsetPixel_frame [OF wf, of 2 1] unsetPixel_frame [OF wf, of 4 1] wf inb oob px
  show ?thesis by auto
qed

subsection \<open>Export modes\<close>

lemma toPlainCells_acc:
  "toPlainCells b cy cxs skip parts = parts @ toPlainCells b cy cxs skip []"
proof (induction cxs arbitrary: skip parts)
  case Nil
  then show ?case by simp
next
  case (Cons cx cxs)
  have a: "toPlainCells b cy cxs k ps = ps @ toPlainCells b cy cxs k []" for k ps
    by (rule Cons.IH)
  show ?case
  proof (cases "glyphAt b (cy * charWidth b + cx)")
    case None
    then show ?thesis
      using a [of "skip - 1" parts] a [of skip "parts @ [brailleOrZero b (cy * charWidth b + cx)]"]
        a [of skip "[brailleOrZero b (cy * charWidth b + cx)]"]
      by (cases "skip = 0") (simp_all add: Let_def)
  next
    case (Some g)
    then show ?thesis
      using a [of "skip - 1" parts] a [of "skip + extraColumns g" "parts @ [g]"]
        a [of "skip + extraColumns g" "[g]"]
      by (cases "skip = 0") (simp_all add: Let_def)
  qed
qed

lemma toColoredCellsRow_chars:
  "map char (toColoredCellsRow b cy cxs skip row) = toPlainCells b cy cxs skip (map char row)"
  by (induction cxs arbitrary: skip row) (simp_all add: Let_def split: option.splits)

lemma fold_rows_map:
  "map f (fold (\<lambda>cy acc. acc @ [g cy]) cys acc) = fold (\<lambda>cy acc. acc @ [f (g cy)]) cys (map f acc)"
  by (induction cys arbitrary: acc) simp_all

lemma toColoredCells_plain:
  "map (\<lambda>row. concat (map char row)) (toColoredCells b) = toPlainLines b"
  by (simp add: toColoredCells_def toPlainLines_def fold_rows_map toColoredCellsRow_chars)

lemma isCode_not_escFree: "isCode p \<Longrightarrow> \<not> escFree p"
  by (auto simp: isCode_def escFree_def)

lemma sgrTail_params:
  "\<forall>c\<in>set ps. isParam c \<Longrightarrow> sgrTail (ps @ 109 # rest) = Some rest"
  by (induction ps) (auto simp: isParam_def)

lemma stripAnsi_code: "isCode p \<Longrightarrow> stripAnsi (p @ rest) = stripAnsi rest"
  by (auto simp: isCode_def sgrTail_params)

lemma stripAnsi_escFree: "escFree p \<Longrightarrow> stripAnsi (p @ rest) = p @ stripAnsi rest"
proof (induction p)
  case Nil
  then show ?case by simp
next
  case (Cons c p)
  then have c: "c \<noteq> ESC" and p: "escFree p" by (auto simp: escFree_def)
  show ?case
  proof (cases "p @ rest")
    case Nil
    then show ?thesis by simp
  next
    case (Cons d ds)
    have "stripAnsi (c # d # ds) = c # stripAnsi (d # ds)" using c by simp
    then show ?thesis using Cons Cons.IH [OF p] by simp
  qed
qed

lemma stripAnsi_parts:
  "\<forall>p\<in>set ps. isCode p \<or> escFree p \<Longrightarrow> stripAnsi (concat ps) = concat (filter escFree ps)"
proof (induction ps)
  case Nil
  then show ?case by simp
next
  case (Cons p ps)
  then have IH: "stripAnsi (concat ps) = concat (filter escFree ps)" by simp
  from Cons.prems have "isCode p \<or> escFree p" by simp
  then show ?case
  proof
    assume "isCode p"
    then show ?thesis using IH by (simp add: stripAnsi_code isCode_not_escFree)
  next
    assume "escFree p"
    then show ?thesis using IH by (simp add: stripAnsi_escFree)
  qed
qed

lemma decimal_params: "\<forall>c\<in>set (decimal n). isParam c"
proof (induction n rule: decimal.induct)
  case (1 n)
  show ?case
  proof (cases "n < 10")
    case True
    then show ?thesis by (subst decimal.simps) (simp add: isParam_def)
  next
    case False
    have "n mod 10 < 10" by simp
    then have "isParam (48 + n mod 10)" unfolding isParam_def by linarith
    with False 1 show ?thesis by (subst decimal.simps) simp
  qed
qed

lemma isCode_termColor: "isCode (termColor b fg bg)"
proof -
  have A: "isCode (ESC # 91 # ps @ [109])" if "\<forall>c\<in>set ps. isParam c" for ps
    using that by (auto simp: isCode_def)
  have p1: "\<forall>c\<in>set (asc ''38;5;'' @ decimal m @ asc '';48;5;'' @ decimal k). isParam c" for m k
    using decimal_params by (auto simp: asc_def isParam_def)
  have p2: "\<forall>c\<in>set (asc ''49;38;5;'' @ decimal m). isParam c" for m
    using decimal_params by (auto simp: asc_def isParam_def)
  have p3: "\<forall>c\<in>set (asc ''39;48;5;'' @ decimal m). isParam c" for m
    using decimal_params by (auto simp: asc_def isParam_def)
  have p4: "\<forall>c\<in>set (asc ''39;49''). isParam c"
    by (auto simp: asc_def isParam_def)
  show ?thesis
    using A [OF p1] A [OF p2] A [OF p3] A [OF p4]
    by (simp add: termColor_def Let_def asc_def)
qed

lemma isCode_termReset: "isCode termReset"
  unfolding termReset_def isCode_def
  by (rule exI [of _ "asc ''39;49''"]) (simp add: asc_def isParam_def)

lemma glyphAt_clean: "glyphsClean b \<Longrightarrow> glyphAt b idx = Some g \<Longrightarrow> escFree g"
  by (auto simp: glyphsClean_def glyphAt_def arrayGet_def split: if_splits dest: nth_mem)

lemma braille_in_range:
  "idx < length (pixelBuffer b) \<Longrightarrow> brailleBang b idx = brailleOrZero b idx"
  by (simp add: brailleBang_def brailleOrZero_def arrayGet_def)

lemma escFree_braille: "escFree (brailleOrZero b idx)"
proof -
  have "(10240 + unat w) mod 65536 \<noteq> 27" for w :: "8 word"
  proof -
    have "unat w < 256"
      using unsigned_less [of w, where ?'a = nat] by simp
    then have "(10240 + unat w) mod 65536 = 10240 + unat w"
      by (intro mod_less) simp
    then show ?thesis by simp
  qed
  then show ?thesis
    by (auto simp: escFree_def brailleOrZero_def fromCharCode_def BRAILLE_OFFSET_def ESC_def
        arrayGet_def split: option.splits)
qed

lemma toLinesCells_parts:
  assumes "\<forall>cx\<in>set cxs. cy * charWidth b + cx < length (pixelBuffer b)"
    and "glyphsClean b"
    and "\<forall>p\<in>set parts. isCode p \<or> escFree p"
  shows "(\<forall>p\<in>set (snd (toLinesCells b cy cxs cur skip parts)). isCode p \<or> escFree p) \<and>
         filter escFree (snd (toLinesCells b cy cxs cur skip parts)) =
           toPlainCells b cy cxs skip (filter escFree parts)"
  using assms
proof (induction cxs arbitrary: cur skip parts)
  case Nil
  then show ?case by simp
next
  case (Cons cx cxs)
  define idx where "idx = cy * charWidth b + cx"
  define colorCode where "colorCode = termColor b (byteAt (foregroundBuffer b) idx)
                                  (byteAt (backgroundBuffer b) idx)"
  define parts1 where "parts1 = (if cur \<noteq> Some colorCode then parts @ [colorCode] else parts)"
  have code: "isCode colorCode" by (simp add: colorCode_def isCode_termColor)
  have p1: "\<forall>p\<in>set parts1. isCode p \<or> escFree p"
    using Cons.prems(3) code by (auto simp: parts1_def)
  have f1: "filter escFree parts1 = filter escFree parts"
    using code by (simp add: parts1_def isCode_not_escFree)
  have rest: "\<forall>cx\<in>set cxs. cy * charWidth b + cx < length (pixelBuffer b)"
    using Cons.prems(1) by simp
  have inr: "idx < length (pixelBuffer b)" using Cons.prems(1) by (simp add: idx_def)
  note IH = Cons.IH [OF rest Cons.prems(2)]
  show ?case
  proof (cases "glyphAt b idx")
    case None
    show ?thesis
    proof (cases "skip > 0")
      case True
      have "toLinesCells b cy (cx # cxs) cur skip parts =
            toLinesCells b cy cxs (Some colorCode) (skip - 1) parts1"
        using None True by (simp add: Let_def idx_def colorCode_def parts1_def)
      moreover have "toPlainCells b cy (cx # cxs) skip (filter escFree parts) =
            toPlainCells b cy cxs (skip - 1) (filter escFree parts)"
        using None True by (simp add: Let_def idx_def)
      ultimately show ?thesis using IH [OF p1, of "Some colorCode" "skip - 1"] f1 by simp
    next
      case False
      have "toLinesCells b cy (cx # cxs) cur skip parts =
            toLinesCells b cy cxs (Some colorCode) skip (parts1 @ [brailleOrZero b idx])"
        using None False braille_in_range [OF inr]
        by (simp add: Let_def idx_def colorCode_def parts1_def)
      moreover have "toPlainCells b cy (cx # cxs) skip (filter escFree parts) =
            toPlainCells b cy cxs skip (filter escFree parts @ [brailleOrZero b idx])"
        using None False by (simp add: Let_def idx_def)
      moreover have "\<forall>p\<in>set (parts1 @ [brailleOrZero b idx]). isCode p \<or> escFree p"
        using p1 escFree_braille by auto
      ultimately show ?thesis
        using IH [of "parts1 @ [brailleOrZero b idx]" "Some colorCode" skip] f1 escFree_braille
        by simp
    qed
  next
    case (Some g)
    have g: "escFree g" using glyphAt_clean [OF Cons.prems(2) Some] .
    show ?thesis
    proof (cases "skip > 0")
      case True
      have "toLinesCells b cy (cx # cxs) cur skip parts =
            toLinesCells b cy cxs (Some colorCode) (skip - 1) parts1"
        using Some True by (simp add: Let_def idx_def colorCode_def parts1_def)
      moreover have "toPlainCells b cy (cx # cxs) skip (filter escFree parts) =
            toPlainCells b cy cxs (skip - 1) (filter escFree parts)"
        using Some True by (simp add: Let_def idx_def)
      ultimately show ?thesis using IH [OF p1, of "Some colorCode" "skip - 1"] f1 by simp
    next
      case False
      have "toLinesCells b cy (cx # cxs) cur skip parts =
            toLinesCells b cy cxs (Some colorCode) (skip + extraColumns g) (parts1 @ [g])"
        using Some False by (simp add: Let_def idx_def colorCode_def parts1_def)
      moreover have "toPlainCells b cy (cx # cxs) skip (filter escFree parts) =
            toPlainCells b cy cxs (skip + extraColumns g) (filter escFree parts @ [g])"
        using Some False by (simp add: Let_def idx_def)
      moreover have "\<forall>p\<in>set (parts1 @ [g]). isCode p \<or> escFree p"
        using p1 g by auto
      ultimately show ?thesis
        using IH [of "parts1 @ [g]" "Some colorCode" "skip + extraColumns g"] f1 g
        by simp
    qed
  qed
qed

lemma toLinesRows_strip:
  assumes "\<forall>cy\<in>set cys. \<forall>cx<charWidth b. cy * charWidth b + cx < length (pixelBuffer b)"
    and "glyphsClean b"
  shows "map stripAnsi (toLinesRows b cys cur acc) =
         fold (\<lambda>cy ls. ls @ [concat (toPlainCells b cy [0..<charWidth b] 0 [])]) cys
           (map stripAnsi acc)"
  using assms
proof (induction cys arbitrary: cur acc)
  case Nil
  then show ?case by simp
next
  case (Cons cy cys)
  obtain cur' parts where r: "toLinesCells b cy [0..<charWidth b] cur 0 [] = (cur', parts)"
    by (cases "toLinesCells b cy [0..<charWidth b] cur 0 []")
  have cols: "\<forall>cx\<in>set [0..<charWidth b]. cy * charWidth b + cx < length (pixelBuffer b)"
    using Cons.prems(1) by simp
  from toLinesCells_parts [OF cols Cons.prems(2), of "[]" cur 0] r
  have ok: "\<forall>p\<in>set parts. isCode p \<or> escFree p"
    and fl: "filter escFree parts = toPlainCells b cy [0..<charWidth b] 0 []"
    by simp_all
  have "\<forall>p\<in>set (parts @ [termReset]). isCode p \<or> escFree p"
    using ok isCode_termReset by auto
  from stripAnsi_parts [OF this]
  have line: "stripAnsi (concat (parts @ [termReset])) =
              concat (toPlainCells b cy [0..<charWidth b] 0 [])"
    using fl isCode_not_escFree [OF isCode_termReset] by simp
  have rest: "\<forall>cy\<in>set cys. \<forall>cx<charWidth b. cy * charWidth b + cx < length (pixelBuffer b)"
    using Cons.prems(1) by simp
  show ?case
    using Cons.IH [OF rest Cons.prems(2), of cur' "acc @ [concat (parts @ [termReset])]"] r line
    by simp
qed

lemma cell_in_range:
  assumes "wellFormed b" "cy < charHeight b" "cx < charWidth b"
  shows "cy * charWidth b + cx < length (pixelBuffer b)"
proof -
  have "cy * charWidth b + cx < cy * charWidth b + charWidth b" using assms(3) by simp
  also have "\<dots> = Suc cy * charWidth b" by simp
  also have "\<dots> \<le> charHeight b * charWidth b"
    using assms(2) by (intro mult_le_mono1) simp
  finally show ?thesis using assms(1) by (simp add: wellFormed_def mult.commute)
qed

lemma toLines_strip:
  assumes "wellFormed b" "glyphsClean b"
  shows "map stripAnsi (toLines b) = toPlainLines b"
proof -
  have "\<forall>cy\<in>set [0..<charHeight b]. \<forall>cx<charWidth b.
          cy * charWidth b + cx < length (pixelBuffer b)"
    using cell_in_range [OF assms(1)] by simp
  from toLinesRows_strip [OF this assms(2), of None "[]"]
  show ?thesis by (simp add: toLines_def toPlainLines_def)
qed

lemma wellFormed_setPixel: "wellFormed b \<Longrightarrow> wellFormed (setPixel x y c b)"
  by (simp add: setPixel_def wellFormed_def Let_def split: option.splits)

lemma wellFormed_unsetPixel: "wellFormed b \<Longrightarrow> wellFormed (unsetPixel x y b)"
  by (simp add: unsetPixel_def wellFormed_def Let_def split: option.splits)

lemma wellFormed_setBackground: "wellFormed b \<Longrightarrow> wellFormed (setBackground x y c b)"
  by (simp add: setBackground_def wellFormed_def Let_def)

lemma wellFormed_setChar: "wellFormed b \<Longrightarrow> wellFormed (setChar g x y c b)"
  by (simp add: setChar_def wellFormed_def Let_def)

lemma wellFormed_writeText: "wellFormed b \<Longrightarrow> wellFormed (writeText t x y c centered b)"
proof -
  have "wellFormed b \<Longrightarrow> wellFormed (fold (\<lambda>i. setChar [t ! i] (x0 + int i * 2) y c) js b)"
    for js x0
    by (induction js arbitrary: b) (simp_all add: wellFormed_setChar)
  then show "wellFormed b \<Longrightarrow> wellFormed (writeText t x y c centered b)"
    by (simp add: writeText_def Let_def)
qed

lemma wellFormed_call: "wellFormed b \<Longrightarrow> wellFormed (call c b)"
  by (cases c)
    (simp_all add: wellFormed_setPixel wellFormed_unsetPixel wellFormed_setBackground
      wellFormed_setChar wellFormed_writeText)

lemma wellFormed_calls: "wellFormed b \<Longrightarrow> wellFormed (calls cs b)"
  unfolding calls_def by (induction cs arbitrary: b) (simp_all add: wellFormed_call)

lemma glyphsClean_setPixel: "glyphsClean b \<Longrightarrow> glyphsClean (setPixel x y c b)"
  by (simp add: setPixel_def glyphsClean_def Let_def split: option.splits)

lemma glyphsClean_unsetPixel: "glyphsClean b \<Longrightarrow> glyphsClean (unsetPixel x y b)"
  by (simp add: unsetPixel_def glyphsClean_def Let_def split: option.splits)

lemma glyphsClean_setBackground: "glyphsClean b \<Longrightarrow> glyphsClean (setBackground x y c b)"
  by (simp add: setBackground_def glyphsClean_def Let_def)

lemma glyphsClean_setChar:
  assumes "glyphsClean b" "escFree g"
  shows "glyphsClean (setChar g x y c b)"
proof -
  have "set ((charBuffer b)[i := Some g]) \<subseteq> insert (Some g) (set (charBuffer b))" for i
    by (rule set_update_subset_insert)
  then show ?thesis
    using assms by (auto simp: setChar_def glyphsClean_def Let_def)
qed

lemma glyphsClean_writeText:
  assumes "glyphsClean b" "escFree t"
  shows "glyphsClean (writeText t x y c centered b)"
proof -
  have "glyphsClean b \<Longrightarrow> \<forall>i\<in>set js. i < length t \<Longrightarrow>
        glyphsClean (fold (\<lambda>i. setChar [t ! i] (x0 + int i * 2) y c) js b)" for js x0
  proof (induction js arbitrary: b)
    case Nil
    then show ?case by simp
  next
    case (Cons j js)
    from Cons.prems have "j < length t" by simp
    then have "t ! j \<in> set t" by (rule nth_mem)
    with assms(2) have "t ! j \<noteq> ESC" by (auto simp: escFree_def)
    then have "escFree [t ! j]" by (simp add: escFree_def)
    with Cons show ?case by (simp add: glyphsClean_setChar)
  qed
  then show ?thesis using assms(1) by (simp add: writeText_def Let_def)
qed

lemma glyphsClean_call:
  "glyphsClean b \<Longrightarrow> escFree (callText c) \<Longrightarrow> glyphsClean (call c b)"
  by (cases c)
    (simp_all add: glyphsClean_setPixel glyphsClean_unsetPixel glyphsClean_setBackground
      glyphsClean_setChar glyphsClean_writeText)

lemma glyphsClean_calls:
  "glyphsClean b \<Longrightarrow> \<forall>c\<in>set cs. escFree (callText c) \<Longrightarrow> glyphsClean (calls cs b)"
  unfolding calls_def by (induction cs arbitrary: b) (simp_all add: glyphsClean_call)

lemma glyphsClean_new: "glyphsClean (newBrailleBuffer w h)"
  by (simp add: glyphsClean_def newBrailleBuffer_def Let_def)

text \<open>
  Claim C5, as the code has it.  In every buffer state reached from a fresh buffer by
  \<open>setPixel\<close>, \<open>unsetPixel\<close>, \<open>setBackground\<close>, \<open>setChar\<close> and \<open>writeText\<close> calls, the
  per-row concatenation of the \<open>char\<close> fields of \<open>toColoredCells\<close> is \<open>toPlainLines\<close>; and
  when no glyph or text argument of these calls contains the \<open>ESC\<close> code unit, removing
  the ANSI colour sequences from \<open>toLines\<close> gives \<open>toPlainLines\<close> as well.  Multi-unit
  override glyphs skip the same cells in the three modes.
\<close>

theorem export_modes_consistent:
  "((\<forall>c\<in>set cs. ESC \<notin> set (callText c)) \<longrightarrow>
      map stripAnsi (toLines (calls cs (newBrailleBuffer w h))) =
        toPlainLines (calls cs (newBrailleBuffer w h))) \<and>
   map (\<lambda>row. concat (map char row)) (toColoredCells (calls cs (newBrailleBuffer w h))) =
     toPlainLines (calls cs (newBrailleBuffer w h))"
proof (intro conjI impI)
  assume "\<forall>c\<in>set cs. ESC \<notin> set (callText c)"
  then have "glyphsClean (calls cs (newBrailleBuffer w h))"
    by (intro glyphsClean_calls glyphsClean_new) (simp add: escFree_def)
  moreover have "wellFormed (calls cs (newBrailleBuffer w h))"
    by (intro wellFormed_calls wellFormed_new)
  ultimately show "map stripAnsi (toLines (calls cs (newBrailleBuffer w h))) =
        toPlainLines (calls cs (newBrailleBuffer w h))"
    by (rule toLines_strip [rotated])
next
  show "map (\<lambda>row. concat (map char row)) (toColoredCells (calls cs (newBrailleBuffer w h))) =
     toPlainLines (calls cs (newBrailleBuffer w h))"
    by (rule toColoredCells_plain)
qed

lemmas buffer_eval = calls_def setPixel_def unsetPixel_def setBackground_def setChar_def
  writeText_def newBrailleBuffer_def outOfBounds_def cellIndex_def
  dotMask_def arrayGet_def BRAILLE_MAP_def Let_def drop_bit_eq_div take_bit_eq_mod
  replicate_numeral_unfold asc_def

lemmas export_eval = toLines_def toPlainLines_def toColoredCells_def upt_rec
  glyphAt_def arrayGet_def byteAt_def termColor_def brailleBang_def brailleOrZero_def
  fromCharCode_def BRAILLE_OFFSET_def extraColumns_def termReset_def ESC_def asc_def Let_def

lemma demoCalls_buffer:
  "calls demoCalls (newBrailleBuffer 8 8) =
     \<lparr> width = 8, height = 8, charWidth = 4, charHeight = 2,
       pixelBuffer = [0, 0, 0, 0, 0, 0, 0, 0],
       foregroundBuffer = [0, 5, 0, 0, 200, 0, 3, 3],
       backgroundBuffer = [0, 0, 0, 9, 0, 0, 0, 0],
       charBuffer = [None, None, None, None, Some [97, 98, 99], None, Some [104], Some [105]],
       globalBackground = 0 \<rparr>"
  by (simp add: buffer_eval demoCalls_def)

lemma escapeGlyph_buffer:
  "calls [SetChar [27, 91, 48, 109] 0 0 0] (newBrailleBuffer 2 4) =
     \<lparr> width = 2, height = 4, charWidth = 1, charHeight = 1,
       pixelBuffer = [0], foregroundBuffer = [0], backgroundBuffer = [0],
       charBuffer = [Some [27, 91, 48, 109]], globalBackground = 0 \<rparr>"
  by (simp add: buffer_eval)

theorem export_modes_consistent_witness:
  "list_all (\<lambda>c. ESC \<notin> set (callText c)) demoCalls \<and>
   map stripAnsi (toLines (calls demoCalls (newBrailleBuffer 8 8))) =
     [[10240, 10240, 10240, 10240], [97, 98, 99, 105]] \<and>
   map (\<lambda>row. concat (map char row)) (toColoredCells (calls demoCalls (newBrailleBuffer 8 8))) =
     [[10240, 10240, 10240, 10240], [97, 98, 99, 105]]"
proof -
  have h: "\<forall>c\<in>set demoCalls. ESC \<notin> set (callText c)"
    by (simp add: demoCalls_def ESC_def asc_def)
  have p: "toPlainLines (calls demoCalls (newBrailleBuffer 8 8)) =
      [[10240, 10240, 10240, 10240], [97, 98, 99, 105]]"
    unfolding demoCalls_buffer by (simp add: export_eval)
  from export_modes_consistent [of demoCalls 8 8] h p show ?thesis
    by (simp add: list_all_iff)
qed

text \<open>
  Claim C5 as stated fails for an override glyph that is itself an escape sequence:
  after \<open>setChar("\\x1B[0m", 0, 0, 0)\<close> on a one-cell buffer, \<open>toPlainLines\<close> holds the four
  code units of the glyph, while \<open>toLines\<close> with the escape sequences removed is empty.
\<close>

theorem export_modes_glyph_counterexample:
  "map stripAnsi (toLines (calls [SetChar [27, 91, 48, 109] 0 0 0] (newBrailleBuffer 2 4)))
     \<noteq> toPlainLines (calls [SetChar [27, 91, 48, 109] 0 0 0] (newBrailleBuffer 2 4))"
  unfolding escapeGlyph_buffer by (simp add: export_eval isParam_def)

subsection \<open>Tile cache\<close>

lemma evictLoop_order:
  "cacheOrder (evictLoop ts) = drop (length (cacheOrder ts) - cacheSize ts) (cacheOrder ts)"
proof (induction ts rule: evictLoop.induct)
  case (1 ts)
  show ?case
  proof (cases "length (cacheOrder ts) > cacheSize ts")
    case False
    then show ?thesis by (subst evictLoop.simps) simp
  next
    case True
    then obtain evict rest where o: "cacheOrder ts = evict # rest"
      by (cases "cacheOrder ts") auto
    have "Suc (length rest) - cacheSize ts = Suc (length rest - cacheSize ts)"
      using True o by simp
    then show ?thesis
      using True o "1.IH" [OF True o] by (subst evictLoop.simps) simp
  qed
qed

lemma evictLoop_size: "cacheSize (evictLoop ts) = cacheSize ts"
proof (induction ts rule: evictLoop.induct)
  case (1 ts)
  show ?case
  proof (cases "length (cacheOrder ts) > cacheSize ts")
    case False
    then show ?thesis by (subst evictLoop.simps) simp
  next
    case True
    then obtain evict rest where o: "cacheOrder ts = evict # rest"
      by (cases "cacheOrder ts") auto
    show ?thesis
      using True o "1.IH" [OF True o] by (subst evictLoop.simps) simp
  qed
qed

lemma evictLoop_cache:
  "[] \<notin> set (cacheOrder ts) \<Longrightarrow>
   cache (evictLoop ts) k =
     (if k \<in> set (take (length (cacheOrder ts) - cacheSize ts) (cacheOrder ts)) then None
      else cache ts k)"
proof (induction ts rule: evictLoop.induct)
  case (1 ts)
  show ?case
  proof (cases "length (cacheOrder ts) > cacheSize ts")
    case False
    then show ?thesis by (subst evictLoop.simps) simp
  next
    case True
    then obtain evict rest where o: "cacheOrder ts = evict # rest"
      by (cases "cacheOrder ts") auto
    have n: "Suc (length rest) - cacheSize ts = Suc (length rest - cacheSize ts)"
      using True o by simp
    have e: "evict \<noteq> []" and r: "[] \<notin> set rest" using "1.prems" o by auto
    show ?thesis
      using True o n e "1.IH" [OF True o] r by (subst evictLoop.simps) auto
  qed
qed

lemma cacheBounded_cacheSet:
  assumes "cacheBounded ts" "key \<noteq> []"
  shows "cacheBounded (cacheSet key tile ts)"
proof -
  define ts1 where "ts1 = ts\<lparr> cache := (cache ts)(key \<mapsto> tile), cacheOrder := cacheOrder ts @ [key] \<rparr>"
  define n where "n = length (cacheOrder ts1) - cacheSize ts1"
  have ne: "[] \<notin> set (cacheOrder ts1)" using assms by (simp add: ts1_def cacheBounded_def)
  have sub: "dom (cache ts1) \<subseteq> set (cacheOrder ts1)"
    using assms(1) by (auto simp: ts1_def cacheBounded_def)
  have "dom (cache (evictLoop ts1)) \<subseteq> set (drop n (cacheOrder ts1))"
  proof
    fix k assume "k \<in> dom (cache (evictLoop ts1))"
    then have k: "k \<notin> set (take n (cacheOrder ts1))" "k \<in> dom (cache ts1)"
      by (auto simp: evictLoop_cache [OF ne] n_def split: if_splits)
    then have "k \<in> set (take n (cacheOrder ts1) @ drop n (cacheOrder ts1))"
      using sub by auto
    then have "k \<in> set (take n (cacheOrder ts1)) \<union> set (drop n (cacheOrder ts1))"
      by (simp only: set_append)
    with k(1) show "k \<in> set (drop n (cacheOrder ts1))" by blast
  qed
  moreover have "[] \<notin> set (drop n (cacheOrder ts1))"
    using ne by (auto dest: in_set_dropD)
  moreover have "length (drop n (cacheOrder ts1)) \<le> cacheSize ts1" by (simp add: n_def)
  ultimately show ?thesis
    by (simp add: cacheBounded_def cacheSet_def evictLoop_order evictLoop_size
        ts1_def [symmetric] n_def [symmetric])
qed

lemma tileKey_nonempty: "tileKey z x y \<noteq> []"
  by (simp add: tileKey_def asc_def)

lemma cacheSize_cacheSet: "cacheSize (cacheSet key tile ts) = cacheSize ts"
  by (simp add: cacheSet_def evictLoop_size)

lemma cacheBounded_card:
  assumes "cacheBounded ts"
  shows "card (dom (cache ts)) \<le> cacheSize ts"
proof -
  have "card (dom (cache ts)) \<le> card (set (cacheOrder ts))"
    using assms by (intro card_mono) (simp_all add: cacheBounded_def)
  also have "\<dots> \<le> length (cacheOrder ts)" by (rule card_length)
  finally show ?thesis using assms by (simp add: cacheBounded_def)
qed

lemma cacheBounded_new:
  "newTileSource world options = Inr ts0 \<Longrightarrow>
   cacheBounded ts0 \<and> cacheSize ts0 = (case opt_cacheSize options of None \<Rightarrow> 32 | Some n \<Rightarrow> n)"
  by (auto simp: newTileSource_def Let_def cacheBounded_def split: if_splits option.splits)

text \<open>A call that nothing overlaps is its two steps, one right after the other.\<close>

lemma getTile_steps:
  "getTile world ts z x y =
     (case getTileEnter world ts z x y of
        (Settled r, ts') \<Rightarrow> (r, ts')
      | (AwaitingFetch, ts') \<Rightarrow> getTileResume world ts' z x y)"
  by (auto simp: getTile_def getTileEnter_def getTileResume_def fetchBuffer_def Let_def
      split: option.splits sum.splits SourceMode.splits)

text \<open>
  The bound holds in every run, overlapped or not: each step keeps \<open>cacheBounded\<close> and
  the cache size.
\<close>

lemma cacheBounded_getTileEnter:
  "cacheBounded ts \<Longrightarrow> cacheBounded (snd (getTileEnter world ts z x y))"
  by (auto simp: getTileEnter_def Let_def cacheBounded_cacheSet tileKey_nonempty
      split: option.splits sum.splits SourceMode.splits)

lemma cacheSize_getTileEnter: "cacheSize (snd (getTileEnter world ts z x y)) = cacheSize ts"
  by (auto simp: getTileEnter_def Let_def cacheSize_cacheSet
      split: option.splits sum.splits SourceMode.splits)

lemma cacheBounded_getTileResume:
  "cacheBounded ts \<Longrightarrow> cacheBounded (snd (getTileResume world ts z x y))"
  by (auto simp: getTileResume_def Let_def cacheBounded_cacheSet tileKey_nonempty
      split: sum.splits)

lemma cacheSize_getTileResume: "cacheSize (snd (getTileResume world ts z x y)) = cacheSize ts"
  by (auto simp: getTileResume_def Let_def cacheSize_cacheSet split: sum.splits)

lemma cacheBounded_getTile:
  "cacheBounded ts \<Longrightarrow> cacheBounded (snd (getTile world ts z x y))"
  by (auto simp: getTile_def Let_def cacheBounded_cacheSet tileKey_nonempty
      split: option.splits sum.splits)

lemma cacheSize_getTile: "cacheSize (snd (getTile world ts z x y)) = cacheSize ts"
  by (auto simp: getTile_def Let_def cacheSize_cacheSet split: option.splits sum.splits)

lemma tileStep_bounded:
  assumes "cacheBounded (fst st)"
  shows "cacheBounded (fst (tileStep world ev st)) \<and>
         cacheSize (fst (tileStep world ev st)) = cacheSize (fst st)"
proof -
  obtain ts pending where st: "st = (ts, pending)" by (cases st)
  have b: "cacheBounded ts" using assms st by simp
  show ?thesis
  proof (cases ev)
    case (Call z x y)
    obtain r ts' where e: "getTileEnter world ts z x y = (r, ts')"
      by (cases "getTileEnter world ts z x y")
    have "cacheBounded ts'" "cacheSize ts' = cacheSize ts"
      using cacheBounded_getTileEnter [OF b, of world z x y]
        cacheSize_getTileEnter [of world ts z x y] e by simp_all
    then show ?thesis using st Call e by (cases r) simp_all
  next
    case (FetchDone i)
    show ?thesis
    proof (cases "i < length pending")
      case False
      then show ?thesis using st FetchDone b by simp
    next
      case True
      obtain z x y where p: "pending ! i = (z, x, y)" by (cases "pending ! i")
      show ?thesis
        using st FetchDone True p cacheBounded_getTileResume [OF b, of world z x y]
          cacheSize_getTileResume [of world ts z x y] by simp
    qed
  qed
qed

lemma runEvents_bounded:
  "cacheBounded (fst st) \<Longrightarrow>
   cacheBounded (fst (runEvents world events st)) \<and>
   cacheSize (fst (runEvents world events st)) = cacheSize (fst st)"
proof (induction events arbitrary: st)
  case Nil
  then show ?case by (simp add: runEvents_def)
next
  case (Cons ev events)
  from tileStep_bounded [OF Cons.prems, of world ev]
  have b: "cacheBounded (fst (tileStep world ev st))"
    and s: "cacheSize (fst (tileStep world ev st)) = cacheSize (fst st)" by simp_all
  from Cons.IH [OF b] s show ?case by (simp add: runEvents_def)
qed

text \<open>
  So a tile source built by the constructor never holds more cached tiles than its cache
  size (32 unless the options give one), whatever calls are made and however their
  fetches complete.
\<close>

lemma runEvents_capacity:
  assumes "newTileSource world options = Inr ts0"
  shows "card (dom (cache (fst (runEvents world events (ts0, [])))))
           \<le> (case opt_cacheSize options of None \<Rightarrow> 32 | Some n \<Rightarrow> n)"
proof -
  from cacheBounded_new [OF assms] have b0: "cacheBounded ts0"
    and s0: "cacheSize ts0 = (case opt_cacheSize options of None \<Rightarrow> 32 | Some n \<Rightarrow> n)"
    by simp_all
  from runEvents_bounded [of "(ts0, [])" world events] b0
  have b: "cacheBounded (fst (runEvents world events (ts0, [])))"
    and s: "cacheSize (fst (runEvents world events (ts0, []))) = cacheSize ts0" by simp_all
  from cacheBounded_card [OF b] s s0 show ?thesis by simp
qed

text \<open>
  A call whose key is cached settles at once with the stored tile and leaves the tile
  source as it was, whatever the world's fetch and decoder would do.
\<close>

lemma getTileEnter_hit:
  "cache ts (tileKey z x y) = Some t \<Longrightarrow> getTileEnter world ts z x y = (Settled (Inr t), ts)"
  by (simp add: getTileEnter_def)

lemma getTile_hit:
  "cache ts (tileKey z x y) = Some t \<Longrightarrow> getTile world ts z x y = (Inr t, ts)"
  by (simp add: getTile_def)

text \<open>
  What \<open>_cacheSet\<close> does to a bounded state: it appends the key to the order queue and
  drops keys from the front of the queue until the queue fits, deleting those keys from
  the cache, also when the same key stands further back in the queue.
\<close>

lemma cacheSet_queue:
  assumes "cacheBounded ts" "key \<noteq> []"
  shows "cacheOrder (cacheSet key tile ts) =
           drop (Suc (length (cacheOrder ts)) - cacheSize ts) (cacheOrder ts @ [key])"
    and "cache (cacheSet key tile ts) k =
           (if k \<in> set (take (Suc (length (cacheOrder ts)) - cacheSize ts) (cacheOrder ts @ [key]))
            then None else ((cache ts)(key \<mapsto> tile)) k)"
proof -
  show "cacheOrder (cacheSet key tile ts) =
        drop (Suc (length (cacheOrder ts)) - cacheSize ts) (cacheOrder ts @ [key])"
    by (simp add: cacheSet_def evictLoop_order)
  have "[] \<notin> set (cacheOrder ts @ [key])" using assms by (simp add: cacheBounded_def)
  then show "cache (cacheSet key tile ts) k =
         (if k \<in> set (take (Suc (length (cacheOrder ts)) - cacheSize ts) (cacheOrder ts @ [key]))
          then None else ((cache ts)(key \<mapsto> tile)) k)"
    by (simp add: cacheSet_def evictLoop_cache)
qed

text \<open>
  Calls that do not overlap keep the queue an exact list of the cached keys, each once.
  In such a state a miss stores its tile, and evicts the oldest key, and only that one,
  exactly when the cache is full.
\<close>

lemma distinct_take_drop: "distinct l \<Longrightarrow> set l - set (take n l) = set (drop n l)"
proof -
  assume d: "distinct l"
  have "set (take n l) \<inter> set (drop n l) = {}"
    by (rule set_take_disj_set_drop_if_distinct [OF d]) simp
  moreover have "set l = set (take n l) \<union> set (drop n l)"
    by (metis append_take_drop_id set_append)
  ultimately show ?thesis by blast
qed

lemma cacheExact_cacheSet:
  assumes e: "cacheExact ts" and k: "key \<noteq> []" and m: "cache ts key = None"
  shows "cacheExact (cacheSet key tile ts)"
proof -
  define n where "n = Suc (length (cacheOrder ts)) - cacheSize ts"
  define l where "l = cacheOrder ts @ [key]"
  have b: "cacheBounded ts" and d: "distinct (cacheOrder ts)"
    and s: "set (cacheOrder ts) = dom (cache ts)" using e by (simp_all add: cacheExact_def)
  have "key \<notin> set (cacheOrder ts)" using s m by auto
  then have dl: "distinct l" using d by (simp add: l_def)
  have o: "cacheOrder (cacheSet key tile ts) = drop n l"
    using cacheSet_queue(1) [OF b k] by (simp add: n_def l_def)
  have c: "cache (cacheSet key tile ts) k' =
             (if k' \<in> set (take n l) then None else ((cache ts)(key \<mapsto> tile)) k')" for k'
    using cacheSet_queue(2) [OF b k] by (simp add: n_def l_def)
  have "dom (cache (cacheSet key tile ts)) = set l - set (take n l)"
    using s by (auto simp: c l_def dom_def split: if_splits)
  then have "set (cacheOrder (cacheSet key tile ts)) = dom (cache (cacheSet key tile ts))"
    using distinct_take_drop [OF dl, of n] o by simp
  moreover have "distinct (cacheOrder (cacheSet key tile ts))" using dl o by simp
  ultimately show ?thesis
    using cacheBounded_cacheSet [OF b k] by (simp add: cacheExact_def)
qed

lemma cacheExact_new: "newTileSource world options = Inr ts0 \<Longrightarrow> cacheExact ts0"
  by (auto simp: newTileSource_def Let_def cacheExact_def cacheBounded_def
      split: if_splits option.splits)

lemma cacheExact_getTile: "cacheExact ts \<Longrightarrow> cacheExact (snd (getTile world ts z x y))"
  by (auto simp: getTile_def Let_def cacheExact_cacheSet tileKey_nonempty
      split: option.splits sum.splits)

lemma cacheSet_exact_miss:
  assumes e: "cacheExact ts" and k: "key \<noteq> []" and m: "cache ts key = None"
    and p: "0 < cacheSize ts"
  shows "cacheOrder (cacheSet key tile ts) =
           (if length (cacheOrder ts) < cacheSize ts then cacheOrder ts
            else tl (cacheOrder ts)) @ [key] \<and>
         cache (cacheSet key tile ts) k' =
           (if k' = key then Some tile
            else if length (cacheOrder ts) = cacheSize ts \<and> k' = hd (cacheOrder ts) then None
            else cache ts k')"
proof -
  have b: "cacheBounded ts" and d: "distinct (cacheOrder ts)"
    and s: "set (cacheOrder ts) = dom (cache ts)" using e by (simp_all add: cacheExact_def)
  have le: "length (cacheOrder ts) \<le> cacheSize ts" using b by (simp add: cacheBounded_def)
  have notin: "key \<notin> set (cacheOrder ts)" using s m by auto
  note q = cacheSet_queue [OF b k, of tile]
  show ?thesis
  proof (cases "length (cacheOrder ts) < cacheSize ts")
    case True
    then have z: "Suc (length (cacheOrder ts)) - cacheSize ts = 0" by simp
    show ?thesis using q(1) q(2) [of k'] z True by simp
  next
    case False
    then have full: "length (cacheOrder ts) = cacheSize ts" using le by simp
    then obtain old rest where o: "cacheOrder ts = old # rest"
      using p by (cases "cacheOrder ts") auto
    have z: "Suc (length (cacheOrder ts)) - cacheSize ts = Suc 0" using full by simp
    have ne: "old \<noteq> key" using notin o by auto
    show ?thesis using q(1) q(2) [of k'] z o full ne by auto
  qed
qed

lemmas tile_eval = getTile_def fetchBuffer_def getHTTP_def getMBTile_def parseTile_def isGzipped_def
  cacheSet_def evictLoop.simps tileKey_def numberToString_def decimal.simps asc_def Let_def

lemmas overlap_eval = runEvents_def getTileEnter_def getTileResume_def tile_eval

lemma demo_new: "newTileSource demoWorld demoOptions = Inr demoSource"
  by (simp add: newTileSource_def demoWorld_def demoOptions_def demoSource_def startsWith_def asc_def)

text \<open>
  At zoom 0 the world is one tile, and the 3 by 3 grid of \<open>_visibleTiles\<close> wraps its three
  columns onto it: a canvas at least 256 pixels wide, centred on latitude 0 and
  longitude 0, shows that tile three times, so \<open>draw\<close> asks for it three times at once.
\<close>

lemma visibleTiles_world:
  assumes "zoom (state r) = 0" "center (state r) = \<lparr> lat = 0, lon = 0 \<rparr>" "256 \<le> viewWidth r"
  shows "map xyz (visibleTiles r) = [(0, 0, 0), (0, 0, 0), (0, 0, 0)]"
proof -
  have c: "ll2tile 0 0 0 = (1 / 2, 1 / 2)" by (simp add: ll2tile_def)
  have u: "[- 1 .. 1 :: int] = [- 1, 0, 1]" by (simp add: upto.simps)
  have w: "256 \<le> real (viewWidth r)" using assms(3) by simp
  show ?thesis
    using w by (simp add: visibleTiles_def assms(1,2) c u baseZoom_def tileSizeAtZoom_def
        TILE_SIZE_def jsRemainder_def Let_def)
qed

text \<open>
  Claim C6, as the code has it.  The claim is what the code's own words promise:
  \<^verbatim>\<open>LRU tile cache to avoid redundant parsing\<close> in the header of the file, and
  \<^verbatim>\<open>Evict oldest entries if over capacity\<close> in \<open>_cacheSet\<close>.  The capacity bound and the cache
  hit hold in every run (\<open>runEvents_capacity\<close>, \<open>getTileEnter_hit\<close>), and calls that do not
  overlap evict in insertion order (\<open>cacheSet_exact_miss\<close>).  But \<open>getTile\<close> looks the key
  up before its fetch and stores it after, with no record of the fetches under way, so
  calls for one key that overlap each push that key on the queue.  A tile source with
  cache size 2 takes three overlapping \<open>getTile(0, 0, 0)\<close>, which is what \<open>draw\<close> issues at
  zoom 0 on a wide canvas (\<open>visibleTiles_world\<close>).  When two of the
  fetches have completed the tile is cached and the queue holds its key twice.  The
  third completion stores the tile again, finds three keys in the queue, and deletes the
  tile it has just stored: the cache then holds nothing, of a capacity of two, and the
  queue still holds the key twice.  From there every later \<open>getTile(0, 0, 0)\<close> fetches and
  decodes the tile again and leaves the tile source as it found it, so the tile is never
  cached again.
\<close>

theorem tile_cache_overlap:
  "newTileSource demoWorld demoOptions = Inr demoSource \<and>
   runEvents demoWorld [Call 0 0 0, Call 0 0 0, Call 0 0 0, FetchDone 0, FetchDone 0]
       (demoSource, [])
     = (demoSource\<lparr> cache := [tileKey 0 0 0 \<mapsto> map of_nat (asc ''http://t/0/0/0.pbf'')],
                     cacheOrder := [tileKey 0 0 0, tileKey 0 0 0] \<rparr>,
        [(0, 0, 0)]) \<and>
   runEvents demoWorld
       [Call 0 0 0, Call 0 0 0, Call 0 0 0, FetchDone 0, FetchDone 0, FetchDone 0]
       (demoSource, [])
     = (demoSource\<lparr> cache := Map.empty, cacheOrder := [tileKey 0 0 0, tileKey 0 0 0] \<rparr>, []) \<and>
   cacheSize demoSource = 2 \<and>
   getTile demoWorld
       (demoSource\<lparr> cache := Map.empty, cacheOrder := [tileKey 0 0 0, tileKey 0 0 0] \<rparr>) 0 0 0
     = (Inr (map of_nat (asc ''http://t/0/0/0.pbf'')),
        demoSource\<lparr> cache := Map.empty, cacheOrder := [tileKey 0 0 0, tileKey 0 0 0] \<rparr>)"
proof (intro conjI)
  show "newTileSource demoWorld demoOptions = Inr demoSource" by (rule demo_new)
qed (simp_all add: demoWorld_def demoSource_def overlap_eval)

subsection \<open>Decode errors\<close>

text \<open>
  Claim C1, as the code has it.  On a cache miss, \<open>getTile\<close> returns the parsed tile and
  caches it when decoding succeeds.  When decoding throws (zlib on a corrupt gzip stream,
  or the protobuf reader), \<open>getTile\<close> has no handler: the error leaves \<open>getTile\<close> and nothing
  is cached.  The error is absorbed one level up, by the \<^verbatim>\<open>try\<close> around \<open>getTile\<close> in
  \<open>MapRenderer.draw\<close>, which leaves that tile without data.
\<close>

theorem getTile_decode_error:
  "cache ts (tileKey z x y) = None \<longrightarrow> fetchBuffer world ts z x y = Inr buf \<longrightarrow>
     (parseTile world buf (language ts) = Inr p \<longrightarrow>
        getTile world ts z x y = (Inr p, cacheSet (tileKey z x y) p ts)) \<and>
     (parseTile world buf (language ts) = Inl e \<longrightarrow>
        getTile world ts z x y = (Inl e, ts) \<and>
        (xyz tile = (x, y, z) \<longrightarrow> loadTile world tile ts = (tile, ts))) \<and>
     (parseTile world buf (language ts) = Inl e \<longleftrightarrow>
        (if isGzipped buf then
           gunzipSync world buf = Inl e \<or>
           (\<exists>d. gunzipSync world buf = Inr d \<and> decodeTile world d (language ts) = Inl e)
         else decodeTile world buf (language ts) = Inl e))"
  by (auto simp: getTile_def loadTile_def parseTile_def Let_def split: sum.splits)

text \<open>
  Claim C1 as stated fails: when the server answers with a truncated gzip stream, the
  promise of \<open>getTile\<close> rejects with the zlib error instead of resolving to a tile.
\<close>

theorem getTile_decode_error_counterexample:
  "fst (getTile corruptWorld demoSource 1 0 0) = Inl ZlibError"
  by (simp add: corruptWorld_def demoWorld_def demoSource_def tile_eval)

theorem getTile_decode_error_witness:
  "cache demoSource (tileKey 1 0 0) = None \<and>
   fetchBuffer corruptWorld demoSource 1 0 0 = Inr [0x1f, 0x8b, 0x08] \<and>
   parseTile corruptWorld [0x1f, 0x8b, 0x08] (language demoSource) = Inl ZlibError \<and>
   getTile corruptWorld demoSource 1 0 0 = (Inl ZlibError, demoSource) \<and>
   loadTile corruptWorld
     \<lparr> xyz = (0, 0, 1), tileZoom = 1, position = (0, 0), size = 256, data = None \<rparr> demoSource
     = (\<lparr> xyz = (0, 0, 1), tileZoom = 1, position = (0, 0), size = 256, data = None \<rparr>, demoSource) \<and>
   fetchBuffer demoWorld demoSource 1 0 0 = Inr (map of_nat (asc ''http://t/1/0/0.pbf'')) \<and>
   fst (getTile demoWorld demoSource 1 0 0) = Inr (map of_nat (asc ''http://t/1/0/0.pbf''))"
proof -
  have m: "cache demoSource (tileKey 1 0 0) = None" by (simp add: demoSource_def)
  have f: "fetchBuffer corruptWorld demoSource 1 0 0 = Inr [0x1f, 0x8b, 0x08]"
    by (simp add: corruptWorld_def demoWorld_def demoSource_def fetchBuffer_def getHTTP_def Let_def)
  have p: "parseTile corruptWorld [0x1f, 0x8b, 0x08] (language demoSource) = Inl ZlibError"
    by (simp add: corruptWorld_def demoWorld_def parseTile_def isGzipped_def)
  have f': "fetchBuffer demoWorld demoSource 1 0 0 = Inr (map of_nat (asc ''http://t/1/0/0.pbf''))"
    by (simp add: demoWorld_def demoSource_def fetchBuffer_def getHTTP_def Let_def
        numberToString_def decimal.simps asc_def)
  have p': "parseTile demoWorld (map of_nat (asc ''http://t/1/0/0.pbf'')) (language demoSource)
      = Inr (map of_nat (asc ''http://t/1/0/0.pbf''))"
    by (simp add: demoWorld_def parseTile_def isGzipped_def asc_def)
  from getTile_decode_error [where ts = demoSource and z = 1 and x = 0 and y = 0
      and world = corruptWorld and buf = "[0x1f, 0x8b, 0x08]" and e = ZlibError
      and tile = "\<lparr> xyz = (0, 0, 1), tileZoom = 1, position = (0, 0), size = 256, data = None \<rparr>"]
    getTile_decode_error [where ts = demoSource and z = 1 and x = 0 and y = 0
      and world = demoWorld and buf = "map of_nat (asc ''http://t/1/0/0.pbf'')"
      and p = "map of_nat (asc ''http://t/1/0/0.pbf'')"]
    m f p f' p'
  show ?thesis by simp
qed

subsection \<open>Polygons\<close>

text \<open>
  Claim C7.  When the first ring of the ring set has fewer than three points, \<open>polygon\<close>
  returns \<open>false\<close> and the canvas (so the pixel buffer) is the one it was given.  When the
  rings pass that check and the triangulation throws, \<open>polygon\<close> returns \<open>false\<close> as well,
  again without touching the canvas.
\<close>

theorem polygon_rejects:
  "(length ring < 3 \<longrightarrow> polygon earcut (ring # rings) color c = Some (False, c)) \<and>
   (collectRings rings' [] [] = Some (vertices, holes) \<longrightarrow>
    earcut vertices (if holes \<noteq> [] then Some holes else None) = None \<longrightarrow>
      polygon earcut rings' color c = Some (False, c))"
  by (simp add: polygon_def)

theorem polygon_rejects_witness:
  "length [(0, 0), (4, 0) :: Point] < 3 \<and>
   polygon fanEarcut [[(0, 0), (4, 0)], [(0, 0), (4, 0), (0, 4)]] 7 (newCanvas 8 8)
     = Some (False, newCanvas 8 8) \<and>
   collectRings [[(0, 0), (4, 0), (0, 4)]] [] [] = Some ([0, 0, 4, 0, 0, 4], []) \<and>
   throwingEarcut [0, 0, 4, 0, 0, 4] None = None \<and>
   polygon throwingEarcut [[(0, 0), (4, 0), (0, 4)]] 7 (newCanvas 8 8)
     = Some (False, newCanvas 8 8)"
proof -
  have c: "collectRings [[(0, 0), (4, 0), (0, 4)]] [] [] = Some ([0, 0, 4, 0, 0, 4], [])"
    by simp
  have t: "throwingEarcut [0, 0, 4, 0, 0, 4] (if ([]::nat list) \<noteq> [] then Some [] else None) = None"
    by (simp add: throwingEarcut_def)
  from polygon_rejects [of "[(0, 0), (4, 0)]" fanEarcut "[[(0, 0), (4, 0), (0, 4)]]" 7
      "newCanvas 8 8" "[[(0, 0), (4, 0), (0, 4)]]" "[0, 0, 4, 0, 0, 4]" "[]"]
    polygon_rejects [of "[]" throwingEarcut "[]" 7
      "newCanvas 8 8" "[[(0, 0), (4, 0), (0, 4)]]" "[0, 0, 4, 0, 0, 4]" "[]"] c t
  show ?thesis by (simp add: throwingEarcut_def)
qed

subsection \<open>Binary64 rounding\<close>

lemma pow2_pos: "0 < pow2 e"
  by (simp add: pow2_def)

lemma pow2_powr: "pow2 e = 2 powr (real_of_int e)"
proof (cases "0 \<le> e")
  case True
  then show ?thesis by (simp add: pow2_def powr_realpow [symmetric])
next
  case False
  have "(2::real) ^ nat (- e) = 2 powr real (nat (- e))" by (simp add: powr_realpow)
  also have "real (nat (- e)) = - real_of_int e" using False by simp
  finally have "(2::real) ^ nat (- e) = 2 powr (- real_of_int e)" .
  then show ?thesis using False by (simp add: pow2_def powr_minus_divide)
qed

lemma binade_eqI:
  assumes "pow2 e \<le> \<bar>v\<bar>" "\<bar>v\<bar> < pow2 (e + 1)"
  shows "binade v = e"
proof -
  have pos: "0 < \<bar>v\<bar>" using assms(1) pow2_pos [of e] by linarith
  have "2 powr (real_of_int e) \<le> \<bar>v\<bar>" "\<bar>v\<bar> < 2 powr (real_of_int (e + 1))"
    using assms by (simp_all add: pow2_powr)
  then have "real_of_int e \<le> log 2 \<bar>v\<bar>" "log 2 \<bar>v\<bar> < real_of_int (e + 1)"
    using pos by (simp_all add: le_log_iff log_less_iff)
  then show ?thesis unfolding binade_def by linarith
qed

text \<open>How \<open>fl\<close> is evaluated at a number whose binade is known.\<close>

lemma fl_eval:
  assumes "pow2 e \<le> \<bar>v\<bar>" "\<bar>v\<bar> < pow2 (e + 1)"
  shows "fl v = of_int (roundToEven (v / pow2 (e - 52))) * pow2 (e - 52)"
proof -
  have "v \<noteq> 0" using assms(1) pow2_pos [of e] by auto
  then show ?thesis by (simp add: fl_def binade_eqI [OF assms])
qed

lemmas fl_at = fl_eval [where e = 9] fl_eval [where e = 6] fl_eval [where e = 5]
  fl_eval [where e = 3] fl_eval [where e = 2] fl_eval [where e = 0]
  fl_eval [where e = "- 3"] fl_eval [where e = "- 4"] fl_eval [where e = "- 5"]
  fl_eval [where e = "- 7"] fl_eval [where e = "- 8"] fl_eval [where e = "- 10"]

lemmas binary64_eval = fadd_def fsub_def fmul_def fdiv_def fl_at pow2_def roundToEven_def

lemma roundToEven_ge: "of_int n \<le> q \<Longrightarrow> n \<le> roundToEven q"
proof -
  assume "of_int n \<le> q"
  then have "n \<le> \<lfloor>q\<rfloor>" by (simp add: le_floor_iff)
  then show ?thesis by (auto simp: roundToEven_def Let_def)
qed

lemma roundToEven_le: "q \<le> of_int n \<Longrightarrow> roundToEven q \<le> n"
proof -
  assume q: "q \<le> of_int n"
  then have f: "\<lfloor>q\<rfloor> \<le> n" by (simp add: floor_le_iff)
  show ?thesis
  proof (cases "\<lfloor>q\<rfloor> = n")
    case True
    then have "q - of_int \<lfloor>q\<rfloor> \<le> 0" using q by simp
    then show ?thesis using True by (simp add: roundToEven_def Let_def)
  next
    case False
    then have "\<lfloor>q\<rfloor> + 1 \<le> n" using f by simp
    then show ?thesis using f by (auto simp: roundToEven_def Let_def)
  qed
qed

lemma fl_nonneg: "0 \<le> v \<Longrightarrow> 0 \<le> fl v"
  using roundToEven_ge [of 0 "v / pow2 (binade v - 52)"] pow2_pos [of "binade v - 52"]
  by (simp add: fl_def)

lemma binade_less: "0 < v \<Longrightarrow> v < pow2 e \<Longrightarrow> binade v < e"
proof -
  assume v: "0 < v" "v < pow2 e"
  then have "log 2 \<bar>v\<bar> < real_of_int e" by (simp add: pow2_powr log_less_iff)
  then show ?thesis unfolding binade_def by linarith
qed

text \<open>Rounding does not cross a non-negative integer bound below \<open>2^53\<close>.\<close>

lemma fl_le_int:
  assumes "v \<le> of_int k" "0 \<le> k" "v < pow2 53"
  shows "fl v \<le> of_int k"
proof (cases "0 < v")
  case False
  have "roundToEven (v / pow2 (binade v - 52)) \<le> 0"
    using False pow2_pos [of "binade v - 52"]
    by (intro roundToEven_le) (simp add: divide_nonpos_pos)
  then have "fl v \<le> 0"
    using pow2_pos [of "binade v - 52"] by (simp add: fl_def mult_le_0_iff)
  then show ?thesis using assms(2) by (smt (verit) of_int_0_le_iff)
next
  case True
  define m where "m = nat (52 - binade v)"
  have b: "binade v - 52 \<le> 0" using binade_less [OF True assms(3)] by simp
  then have p: "pow2 (binade v - 52) = 1 / 2 ^ m"
    by (cases "binade v - 52 = 0") (simp_all add: pow2_def m_def)
  have "v / pow2 (binade v - 52) = v * 2 ^ m" by (simp add: p)
  also have "\<dots> \<le> of_int k * 2 ^ m" using assms(1) by simp
  also have "\<dots> = of_int (k * 2 ^ m)" by simp
  finally have "roundToEven (v / pow2 (binade v - 52)) \<le> k * 2 ^ m" by (rule roundToEven_le)
  then have "real_of_int (roundToEven (v / pow2 (binade v - 52))) \<le> of_int k * 2 ^ m"
    by (metis of_int_le_iff of_int_mult of_int_numeral of_int_power)
  then show ?thesis using True by (simp add: fl_def p field_simps)
qed

subsection \<open>Renderer mutators\<close>

lemmas mutator_eval = fitBounds_def lowerTo_def raiseTo_def normalize_def clamp_def
  zoomForSpan_def centerOn_def zoomIn_def zoomOut_def Let_def

text \<open>
  Claim C3, as the code has it.  \<open>fitBounds\<close> on the two Dublin points (each coordinate
  the binary64 number its literal denotes) with the default padding selects zoom 10: the
  span of 0.1 degrees is first widened by the padding to 0.12, which lies in the bucket
  from 0.1 to 0.5.  The centre longitude is exactly -6.25.  The centre latitude is the
  binary64 result of \<open>(53.30 + 53.40) / 2\<close>, the number \<open>1877086250939187 / 2^45\<close>, printed
  53.349999999999994: less than \<open>10^-14\<close> below 53.35, and not 53.35 itself.
\<close>

theorem fitBounds_dublin:
  "state (fitBounds [\<lparr>lat = fl 53.30, lon = - fl 6.30\<rparr>, \<lparr>lat = fl 53.40, lon = - fl 6.20\<rparr>]
      None r)
     = \<lparr> center = \<lparr> lat = 1877086250939187 / 2 ^ 45, lon = - 6.25 \<rparr>, zoom = 10 \<rparr> \<and>
   (53.35 :: real) - 1 / 10 ^ 14 < 1877086250939187 / 2 ^ 45 \<and>
   (1877086250939187 / 2 ^ 45 :: real) < 53.35"
  by (simp add: mutator_eval binary64_eval)

text \<open>Claim C3 as stated fails: the zoom selected is not 12.\<close>

theorem fitBounds_dublin_counterexample:
  "zoom (state (fitBounds [\<lparr>lat = fl 53.30, lon = - fl 6.30\<rparr>, \<lparr>lat = fl 53.40, lon = - fl 6.20\<rparr>]
      None demoRenderer)) \<noteq> 12"
  by (simp add: mutator_eval binary64_eval)

text \<open>
  What the mutators do keep, on finite numbers: a zoom within \<open>[MIN_ZOOM, MAX_ZOOM]\<close> and a
  centre latitude within the clamp bounds stay so under every sequence of mutator calls.
\<close>

lemma zoomForSpan_range: "0 \<le> zoomForSpan s \<and> zoomForSpan s \<le> 18"
  by (simp add: zoomForSpan_def)

lemma clamp_range: "mn \<le> mx \<Longrightarrow> mn \<le> clamp v mn mx \<and> clamp v mn mx \<le> mx"
  by (simp add: clamp_def)

lemma normalize_lat: "- fl 85.0511 \<le> lat (normalize ll) \<and> lat (normalize ll) \<le> fl 85.0511"
proof -
  have "0 \<le> fl 85.0511" by (rule fl_nonneg) simp
  then have "- fl 85.0511 \<le> fl 85.0511" by simp
  from clamp_range [OF this, of "lat ll"] show ?thesis by (simp add: normalize_def Let_def)
qed

lemma zoomIn_range:
  assumes "zoomInRange (state r)"
  shows "zoomInRange (state (zoomIn r))"
proof -
  have "0 \<le> fl (zoom (state r) + 1 / 2)"
    using assms by (intro fl_nonneg) (simp add: zoomInRange_def MIN_ZOOM_def)
  then show ?thesis
    by (simp add: zoomIn_def zoomInRange_def fadd_def MIN_ZOOM_def MAX_ZOOM_def ZOOM_STEP_def)
qed

lemma zoomOut_range:
  assumes "zoomInRange (state r)"
  shows "zoomInRange (state (zoomOut r))"
proof -
  have "fl (zoom (state r) - 1 / 2) \<le> of_int 18"
    using assms
    by (intro fl_le_int) (simp_all add: zoomInRange_def MAX_ZOOM_def pow2_def)
  then show ?thesis
    by (simp add: zoomOut_def zoomInRange_def fsub_def MIN_ZOOM_def MAX_ZOOM_def ZOOM_STEP_def)
qed

lemma mutate_zoom_lat:
  assumes "zoomInRange (state r)" "latInRange (state r)"
  shows "zoomInRange (state (mutate m r)) \<and> latInRange (state (mutate m r))"
proof (cases m)
  case (FitBounds points padding)
  show ?thesis
  proof (cases "boundsOf points (None, None, None, None)")
    case (fields a b c d)
    then show ?thesis
      using assms FitBounds zoomForSpan_range normalize_lat
      by (auto simp: fitBounds_def Let_def zoomInRange_def latInRange_def MIN_ZOOM_def MAX_ZOOM_def
          split: option.splits intro: order_trans)
  qed
next
  case ZoomIn
  then show ?thesis
    using assms zoomIn_range [OF assms(1)] by (simp add: latInRange_def zoomIn_def)
next
  case ZoomOut
  then show ?thesis
    using assms zoomOut_range [OF assms(1)] by (simp add: latInRange_def zoomOut_def)
qed (use assms normalize_lat in \<open>auto simp: zoomInRange_def latInRange_def pan_def panLeft_def
      panRight_def panUp_def panDown_def centerOn_def setWaypoint_def Let_def\<close>)

lemma mutators_zoom_lat:
  "zoomInRange (state r) \<Longrightarrow> latInRange (state r) \<Longrightarrow>
   zoomInRange (state (fold mutate ms r)) \<and> latInRange (state (fold mutate ms r))"
  by (induction ms arbitrary: r) (simp_all add: mutate_zoom_lat)

text \<open>
  Claim C4 at the input where the code leaves the range: \<open>normalize\<close> adds or subtracts
  360 at most once, so \<open>centerOn\<close> with longitude 1000 leaves the centre at longitude 640.
\<close>

theorem centerOn_longitude:
  "normalize \<lparr> lat = 0, lon = 1000 \<rparr> = \<lparr> lat = 0, lon = 640 \<rparr> \<and>
   lon (center (state (fold mutate [CenterOn \<lparr> lat = 0, lon = 1000 \<rparr>] r))) = 640 \<and>
   \<not> lonInRange (state (fold mutate [CenterOn \<lparr> lat = 0, lon = 1000 \<rparr>] r))"
  by (simp add: mutator_eval lonInRange_def binary64_eval)

subsection \<open>The drawing latch\<close>

lemma glyphAt_clear: "glyphAt (clear b) idx = None"
  by (simp add: glyphAt_def clear_def arrayGet_def)

lemma brailleOrZero_clear: "brailleOrZero (clear b) idx = [10240]"
  by (simp add: brailleOrZero_def clear_def arrayGet_def fromCharCode_def BRAILLE_OFFSET_def)

lemma toPlainCells_clear:
  "toPlainCells (clear b) cy cxs 0 parts = parts @ map (\<lambda>cx. [10240]) cxs"
  by (induction cxs arbitrary: parts) (simp_all add: glyphAt_clear brailleOrZero_clear Let_def)

lemma concat_singletons: "concat (map (\<lambda>x. [v]) xs) = replicate (length xs) v"
  by (induction xs) simp_all

lemma fold_const_rows:
  "fold (\<lambda>cy ls. ls @ [row]) cys acc = acc @ replicate (length cys) row"
  by (induction cys arbitrary: acc) (simp_all add: replicate_append_same)

lemma toPlainLines_clear:
  "toPlainLines (clear b) = replicate (charHeight b) (replicate (charWidth b) 10240)"
proof -
  have "charWidth (clear b) = charWidth b" "charHeight (clear b) = charHeight b"
    by (simp_all add: clear_def)
  then show ?thesis
    by (simp add: toPlainLines_def toPlainCells_clear concat_singletons fold_const_rows
        map_replicate_const)
qed

lemma drawEnter_canvas:
  "\<not> isDrawing r \<Longrightarrow>
   isDrawing (snd (drawEnter r)) \<and>
   buffer (canvas (snd (drawEnter r))) =
     clear (case backgroundStyle r of
              Some color \<Rightarrow> (buffer (canvas r))\<lparr> globalBackground := color \<rparr>
            | None \<Rightarrow> buffer (canvas r))"
  by (simp add: drawEnter_def Let_def canvasClear_def canvasSetBackground_def
      split: option.splits)

text \<open>
  Claim C2, as the code has it.  A \<open>draw\<close> that finds the renderer drawing returns at
  once, with the export of the canvas as it is at that moment and the current centre,
  zoom and scale, and leaves the renderer unchanged: nothing is queued, no buffer is
  written and no error is raised.  The only moment another call can run during a
  \<open>draw\<close> is its \<^verbatim>\<open>await\<close>; by then the draw in flight has cleared the canvas, so what the
  second call returns is the blank canvas (every cell the empty braille glyph U+2800),
  whatever the previous frame showed.
\<close>

theorem draw_reentrant:
  "(isDrawing r \<longrightarrow> drawEnter r = (Returned (currentFrame r), r)) \<and>
   (\<not> isDrawing r0 \<longrightarrow>
      isDrawing (snd (drawEnter r0)) \<and>
      drawEnter (snd (drawEnter r0)) =
        (Returned (currentFrame (snd (drawEnter r0))), snd (drawEnter r0)) \<and>
      plainLines (currentFrame (snd (drawEnter r0))) =
        replicate (charHeight (buffer (canvas r0)))
          (replicate (charWidth (buffer (canvas r0))) 10240))"
proof (intro conjI impI)
  assume "isDrawing r"
  then show "drawEnter r = (Returned (currentFrame r), r)" by (simp add: drawEnter_def)
next
  assume idle: "\<not> isDrawing r0"
  from drawEnter_canvas [OF idle] show d: "isDrawing (snd (drawEnter r0))" by simp
  then show "drawEnter (snd (drawEnter r0)) =
        (Returned (currentFrame (snd (drawEnter r0))), snd (drawEnter r0))"
    by (simp add: drawEnter_def [of "snd (drawEnter r0)"])
  define b where "b = (case backgroundStyle r0 of
              Some color \<Rightarrow> (buffer (canvas r0))\<lparr> globalBackground := color \<rparr>
            | None \<Rightarrow> buffer (canvas r0))"
  have "buffer (canvas (snd (drawEnter r0))) = clear b"
    using drawEnter_canvas [OF idle] by (simp add: b_def)
  moreover have "charWidth b = charWidth (buffer (canvas r0))"
    "charHeight b = charHeight (buffer (canvas r0))"
    by (simp_all add: b_def split: option.splits)
  ultimately show "plainLines (currentFrame (snd (drawEnter r0))) =
        replicate (charHeight (buffer (canvas r0)))
          (replicate (charWidth (buffer (canvas r0))) 10240)"
    by (simp add: currentFrame_def toPlainLines_clear)
qed

lemma demoFirstDraw_canvas:
  "buffer (canvas (snd demoFirstDraw)) = setPixel 2 1 5 (newBrailleBuffer 8 8) \<and>
   \<not> isDrawing (snd demoFirstDraw) \<and>
   plainLines (fst demoFirstDraw) = toPlainLines (setPixel 2 1 5 (newBrailleBuffer 8 8))"
  apply (simp add: demoFirstDraw_def drawResume_def drawEnter_def demoRenderer_def demoPaint_def
      awaited_def Let_def currentFrame_def canvasClear_def newCanvas_def split: prod.splits)
  apply (simp add: clear_def newBrailleBuffer_def Let_def drop_bit_eq_div replicate_numeral_unfold)
  done

lemma demoFirstDraw_plain:
  "plainLines (fst demoFirstDraw) = [[10240, 10242, 10240, 10240], [10240, 10240, 10240, 10240]]"
proof -
  have "setPixel 2 1 5 (newBrailleBuffer 8 8) =
     \<lparr> width = 8, height = 8, charWidth = 4, charHeight = 2,
       pixelBuffer = [0, 2, 0, 0, 0, 0, 0, 0],
       foregroundBuffer = [0, 5, 0, 0, 0, 0, 0, 0],
       backgroundBuffer = [0, 0, 0, 0, 0, 0, 0, 0],
       charBuffer = [None, None, None, None, None, None, None, None],
       globalBackground = 0 \<rparr>"
    by (simp add: buffer_eval)
  then show ?thesis
    using demoFirstDraw_canvas by (simp add: export_eval)
qed

lemma demoMidDraw_latched:
  "isDrawing demoMidDraw \<and>
   plainLines (currentFrame demoMidDraw) =
     [[10240, 10240, 10240, 10240], [10240, 10240, 10240, 10240]]"
proof -
  have idle: "\<not> isDrawing (snd demoFirstDraw)" using demoFirstDraw_canvas by simp
  have "backgroundStyle (snd demoFirstDraw) = None"
    by (simp add: demoFirstDraw_def drawResume_def drawEnter_def demoRenderer_def demoPaint_def
      awaited_def Let_def split: prod.splits)
  then have "buffer (canvas demoMidDraw) = clear (setPixel 2 1 5 (newBrailleBuffer 8 8))"
    using drawEnter_canvas [OF idle] demoFirstDraw_canvas by (simp add: demoMidDraw_def)
  moreover have "charWidth (setPixel 2 1 5 (newBrailleBuffer 8 8)) = 4"
    "charHeight (setPixel 2 1 5 (newBrailleBuffer 8 8)) = 2"
    by (simp_all add: buffer_eval)
  ultimately show ?thesis
    using drawEnter_canvas [OF idle]
    by (simp add: demoMidDraw_def currentFrame_def toPlainLines_clear replicate_numeral_unfold)
qed

text \<open>
  Claim C2 as stated fails: the frame a re-entrant \<open>draw\<close> returns is the cleared canvas
  of the draw in flight, not the frame the previous draw returned.
\<close>

theorem draw_reentrant_counterexample:
  "fst (drawEnter demoMidDraw) \<noteq> Returned (fst demoFirstDraw) \<and>
   fst (drawEnter demoMidDraw) = Returned (currentFrame demoMidDraw) \<and>
   plainLines (currentFrame demoMidDraw) =
     [[10240, 10240, 10240, 10240], [10240, 10240, 10240, 10240]] \<and>
   plainLines (fst demoFirstDraw) =
     [[10240, 10242, 10240, 10240], [10240, 10240, 10240, 10240]]"
proof -
  have r: "fst (drawEnter demoMidDraw) = Returned (currentFrame demoMidDraw)"
    using demoMidDraw_latched by (simp add: drawEnter_def)
  have "currentFrame demoMidDraw \<noteq> fst demoFirstDraw"
  proof
    assume "currentFrame demoMidDraw = fst demoFirstDraw"
    then have "plainLines (currentFrame demoMidDraw) = plainLines (fst demoFirstDraw)" by simp
    then show False using demoMidDraw_latched demoFirstDraw_plain by simp
  qed
  then show ?thesis using r demoMidDraw_latched demoFirstDraw_plain by simp
qed

theorem draw_reentrant_witness:
  "isDrawing demoMidDraw \<and>
   drawEnter demoMidDraw = (Returned (currentFrame demoMidDraw), demoMidDraw) \<and>
   \<not> isDrawing (snd demoFirstDraw) \<and>
   drawEnter (snd (drawEnter (snd demoFirstDraw))) =
     (Returned (currentFrame demoMidDraw), demoMidDraw) \<and>
   plainLines (currentFrame (snd (drawEnter (snd demoFirstDraw)))) =
     [[10240, 10240, 10240, 10240], [10240, 10240, 10240, 10240]]"
proof -
  have idle: "\<not> isDrawing (snd demoFirstDraw)" using demoFirstDraw_canvas by simp
  have busy: "isDrawing demoMidDraw" using demoMidDraw_latched by simp
  from draw_reentrant [of demoMidDraw "snd demoFirstDraw"] idle busy demoMidDraw_latched
  show ?thesis by (simp add: demoMidDraw_def)
qed

subsection \<open>Colour round trip\<close>

lemmas color_eval = hex2xterm_def hex2rgb_def asc_def parseInt16_def hexValue_def Let_def
  rgb2xterm_def mathRound_def xterm2hex_def padStart2_def toString16.simps hexDigit_def

text \<open>
  Claim C9 at an input where the code leaves the bound: the grey \<open>#e4e4e4\<close> (228, itself
  entry 22 of the greyscale ramp, terminal index 254) is sent to index 252 and comes back
  as \<open>#d0d0d0\<close> (208, entry 20 of the ramp), two ramp steps away.
\<close>

theorem grey_round_trip_two_steps:
  "hex2rgb (asc ''#e4e4e4'') = (Some 228, Some 228, Some 228) \<and>
   hex2xterm (asc ''#e4e4e4'') = Some 252 \<and>
   xterm2hex 252 = asc ''#d0d0d0'' \<and>
   hex2rgb (asc ''#d0d0d0'') = (Some 208, Some 208, Some 208) \<and>
   greyRamp ! 22 = 228 \<and> greyRamp ! 20 = 208 \<and>
   xterm2hex 254 = asc ''#e4e4e4''"
  by (simp add: color_eval greyRamp_def)

subsection \<open>Mercator round trip over the reals\<close>

text \<open>
  Over the reals, \<open>tile2ll\<close> undoes \<open>ll2tile\<close> at every zoom and every latitude strictly
  between the poles: the longitude comes back exactly, the latitude as \<open>rad2deg\<close> of its
  radian value.
\<close>

lemma mercator_inverse:
  assumes "- (pi / 2) < p" "p < pi / 2"
  shows "arctan (0.5 * (exp (ln (tan p + 1 / cos p)) - exp (- ln (tan p + 1 / cos p)))) = p"
proof -
  have c: "0 < cos p" using assms by (rule cos_gt_zero_pi)
  have sc: "(sin p)\<^sup>2 + (cos p)\<^sup>2 = 1" by simp
  have "(sin p)\<^sup>2 < 1" using c sc by (smt (verit) zero_less_power)
  then have s: "- 1 < sin p" "sin p < 1"
    by (smt (verit) power2_eq_square mult_le_cancel_left1 mult_minus_left mult_minus_right
        one_power2 power2_le_imp_le power2_minus)+
  define u where "u = tan p + 1 / cos p"
  have u: "u = (1 + sin p) / cos p" using c by (simp add: u_def tan_def field_simps)
  have upos: "0 < u" using c s by (simp add: u)
  have "1 / u = cos p / (1 + sin p)" by (simp add: u)
  also have "\<dots> = (1 - sin p) / cos p"
  proof -
    have "cos p * cos p = (1 - sin p) * (1 + sin p)"
      using sc by (simp add: power2_eq_square algebra_simps)
    then show ?thesis using c s by (simp add: field_simps)
  qed
  finally have inv: "1 / u = (1 - sin p) / cos p" .
  have "0.5 * (exp (ln u) - exp (- ln u)) = 0.5 * (u - 1 / u)"
    using upos by (simp add: exp_minus inverse_eq_divide)
  also have "\<dots> = 0.5 * ((1 + sin p) / cos p - (1 - sin p) / cos p)"
    using inv u by simp
  also have "\<dots> = 0.5 * ((1 + sin p - (1 - sin p)) / cos p)"
    by (simp only: diff_divide_distrib)
  also have "\<dots> = tan p" by (simp add: tan_def)
  finally show ?thesis
    using assms by (simp add: u_def arctan_tan)
qed

lemma mercator_round_trip:
  assumes "- 90 < la" "la < 90"
  shows "tile2ll (fst (ll2tile lo la zm)) (snd (ll2tile lo la zm)) zm =
         \<lparr> lat = rad2deg ((la * pi) / 180), lon = lo \<rparr>"
proof -
  define p where "p = (la * pi) / 180"
  have "pi * (- 90) < pi * la"
    by (rule mult_strict_left_mono) (use assms in simp_all)
  moreover have "pi * la < pi * 90"
    by (rule mult_strict_left_mono) (use assms in simp_all)
  ultimately have p: "- (pi / 2) < p" "p < pi / 2" by (simp_all add: p_def field_simps)
  define n where "n = 2 powr zm"
  have n: "0 < n" by (simp add: n_def)
  have "pi - 2 * pi * (((1 - ln (tan p + 1 / cos p) / pi) / 2) * n) / n = ln (tan p + 1 / cos p)"
    using n by (simp add: field_simps)
  moreover have "((lo + 180) / 360 * n) / n * 360 - 180 = lo" using n by (simp add: field_simps)
  ultimately show ?thesis
    using mercator_inverse [OF p]
    by (simp add: tile2ll_def ll2tile_def Let_def p_def [symmetric] n_def [symmetric])
qed

end
